theory Spec2Isabelle
  imports Main "HOL-Library.Char_ord" "HOL-Library.List_Lexorder"
begin

section \<open>JavaScript values used by the cache pipeline\<close>

text \<open>
  A JavaScript string is modelled by the list of its code units, here the code units
  \<open>0 .. 255\<close> held by \<^typ>\<open>char\<close>.  A property of a parsed JSON object that the pipeline
  reads as a string is a \<^typ>\<open>string option\<close>: \<open>None\<close> stands for an absent, \<open>undefined\<close> or
  \<open>null\<close> property.  A raw entity (company, user, project) is the duck-typed object the
  upstream API returned: a map from property names to such values.
\<close>

type_synonym jsobj = "string \<Rightarrow> string option"

text \<open>Truthiness of a string-or-absent value: every string but the empty one is truthy.\<close>

definition truthy :: "string option \<Rightarrow> bool" where
  "truthy v = (case v of None \<Rightarrow> False | Some s \<Rightarrow> s \<noteq> [])"

text \<open>\<open>a || b\<close> on such values.\<close>

definition js_or :: "string option \<Rightarrow> string option \<Rightarrow> string option" where
  "js_or a b = (if truthy a then a else b)"

text \<open>\<open>a || ""\<close>.\<close>

definition or_empty :: "string option \<Rightarrow> string" where
  "or_empty a = (case js_or a (Some []) of None \<Rightarrow> [] | Some s \<Rightarrow> s)"

text \<open>
  \<open>String.prototype.trim\<close>: strips white space and line terminators from both ends.  Among
  the code units \<open>0 .. 255\<close> these are TAB, LF, VT, FF, CR, SP and NBSP.
\<close>

definition is_ws :: "char \<Rightarrow> bool" where
  "is_ws c = (of_char c \<in> {9, 10, 11, 12, 13, 32, 160 :: nat})"

definition trim :: "string \<Rightarrow> string" where
  "trim s = rev (dropWhile is_ws (rev (dropWhile is_ws s)))"

text \<open>
  \<open>String.prototype.toLowerCase\<close> on the code units \<open>0 .. 255\<close>: the letters \<open>A .. Z\<close> and the
  Latin-1 capitals (\<open>0xC0 .. 0xDE\<close> but the multiplication sign \<open>0xD7\<close>) move up by 32.
\<close>

definition lower_char :: "char \<Rightarrow> char" where
  "lower_char c =
     (let n = of_char c :: nat
      in if (65 \<le> n \<and> n \<le> 90) \<or> (192 \<le> n \<and> n \<le> 222 \<and> n \<noteq> 215)
         then char_of (n + 32) else c)"

definition toLowerCase :: "string \<Rightarrow> string" where
  "toLowerCase s = map lower_char s"

section \<open>lib/aps-constants.js\<close>

definition CACHE_MAX_AGE_MS :: int where
  "CACHE_MAX_AGE_MS = 2 * 60 * 60 * 1000"

section \<open>lib/cache-builder.js: the staleness policy\<close>

text \<open>
  \<open>isCacheStale(timestamp)\<close> reads the clock once (\<open>Date.now()\<close>); the clock reading is the
  second argument.  The stored timestamp is epoch milliseconds or absent; \<open>!timestamp\<close> holds
  for an absent timestamp and for the number \<open>0\<close>.
\<close>

definition isCacheStale :: "int option \<Rightarrow> int \<Rightarrow> bool" where
  "isCacheStale timestamp now =
     (case timestamp of
        None \<Rightarrow> True
      | Some ts \<Rightarrow> ts = 0 \<or> now - ts > CACHE_MAX_AGE_MS)"

section \<open>lib/users-api.js: display names\<close>

definition displayUserName :: "jsobj \<Rightarrow> string" where
  "displayUserName user =
     (let name = trim (or_empty (user ''name''))
      in if name \<noteq> [] then name
         else
           let first = trim (or_empty (js_or (user ''first_name'') (user ''firstName'')));
               last = trim (or_empty (js_or (user ''last_name'') (user ''lastName'')))
           in trim (first @ '' '' @ last))"

section \<open>The upstream API as seen by one build\<close>

text \<open>
  One call of \<open>fetch(url)\<close> followed by \<open>resp.ok\<close>, \<open>resp.text()\<close> or \<open>resp.json()\<close> has one of
  four outcomes: the promise of \<open>fetch\<close> rejects (a network failure); the response is not a
  success, with its status code and its body text (\<open>None\<close> when \<open>resp.text()\<close> rejects, which
  the callers turn into the empty string); the response is a success whose body is not JSON
  (\<open>resp.json()\<close> rejects); or it is a success carrying a parsed JSON payload.
\<close>

datatype 'p response =
    Rejected
  | NotOk nat "string option"
  | OkBadJson
  | OkJson 'p

text \<open>
  The value of a property that the fetchers test with \<open>||\<close> and \<open>Array.isArray\<close>: falsy
  (absent, \<open>null\<close>, \<open>false\<close>, \<open>0\<close>, the empty string), an array (always truthy, also when
  empty), or another truthy value.
\<close>

datatype 'a jfield = Falsy | Arr "'a list" | Other

text \<open>
  A parsed payload: \<open>null\<close>, a primitive (number, string, boolean), an array of entities,
  or an object with its \<open>results\<close> property and the number \<open>pagination.totalResults\<close> (\<open>None\<close>
  when \<open>pagination\<close> or \<open>totalResults\<close> is absent or \<open>null\<close>).
\<close>

datatype 'a payload =
    PNull
  | PPrim
  | PArr "'a list"
  | PObj "'a jfield" "int option"

datatype error =
    ApiError string nat string
  | FetchRejected
  | JsonRejected
  | TypeError
  | BuildInProgress
  | NoAccountId
  | CredentialsMissing
  | TokenRequestFailed nat string
  | StorageRejected

text \<open>
  A paginated endpoint answers a request as a function of its offset: within one run of a
  fetcher the offsets requested are pairwise different.  The fetchers below thread the list
  of offsets requested so far through the loop and return it with the result; a loop that
  never ends has no result (\<open>None\<close>).
\<close>

type_synonym 'a endpoint = "nat \<Rightarrow> 'a payload response"

section \<open>Account-level fetchers\<close>

text \<open>
  \<open>CompaniesAPI.fetchAll\<close>, \<open>UsersAPI.fetchAll\<close> and \<open>ProjectsAPI.fetchAll\<close> are the same loop
  up to the label of the error message, the page size and the way the batch is read off the
  payload; \<open>fetchAll_loop\<close> is that loop.  \<open>batch_of\<close> returns \<open>Inr None\<close> for a batch
  that is not an array, and \<open>Inl\<close> when reading the batch throws.
\<close>

partial_function (option) fetchAll_loop ::
  "string \<Rightarrow> nat \<Rightarrow> ('a payload \<Rightarrow> error + 'a list option) \<Rightarrow> 'a endpoint \<Rightarrow>
   nat \<Rightarrow> 'a list \<Rightarrow> nat list \<Rightarrow> (nat list \<times> (error + 'a list)) option" where
  "fetchAll_loop label limit batch_of srv offset acc reqs =
     (case srv offset of
        Rejected \<Rightarrow> Some (reqs @ [offset], Inl FetchRejected)
      | NotOk status body \<Rightarrow>
          Some (reqs @ [offset],
                Inl (ApiError label status (case body of None \<Rightarrow> [] | Some b \<Rightarrow> b)))
      | OkBadJson \<Rightarrow> Some (reqs @ [offset], Inl JsonRejected)
      | OkJson p \<Rightarrow>
          (case batch_of p of
             Inl e \<Rightarrow> Some (reqs @ [offset], Inl e)
           | Inr None \<Rightarrow> Some (reqs @ [offset], Inr acc)
           | Inr (Some batch) \<Rightarrow>
               if length batch = 0 then Some (reqs @ [offset], Inr acc)
               else if length batch < limit then Some (reqs @ [offset], Inr (acc @ batch))
               else fetchAll_loop label limit batch_of srv (offset + limit) (acc @ batch)
                      (reqs @ [offset])))"

declare fetchAll_loop.simps [code]

text \<open>\<open>const batch = await resp.json()\<close>: the payload itself is the batch.\<close>

definition whole_payload :: "'a payload \<Rightarrow> error + 'a list option" where
  "whole_payload p = (case p of PArr xs \<Rightarrow> Inr (Some xs) | _ \<Rightarrow> Inr None)"

text \<open>
  \<open>const batch = payload.results || payload\<close>: reading a property of \<open>null\<close> throws a
  \<open>TypeError\<close>; an array has no \<open>results\<close> and is the batch itself.
\<close>

definition results_or_payload :: "'a payload \<Rightarrow> error + 'a list option" where
  "results_or_payload p =
     (case p of
        PNull \<Rightarrow> Inl TypeError
      | PPrim \<Rightarrow> Inr None
      | PArr xs \<Rightarrow> Inr (Some xs)
      | PObj results totalResults \<Rightarrow> (case results of Arr xs \<Rightarrow> Inr (Some xs) | _ \<Rightarrow> Inr None))"

definition CompaniesAPI_fetchAll_run :: "'a endpoint \<Rightarrow> (nat list \<times> (error + 'a list)) option" where
  "CompaniesAPI_fetchAll_run srv = fetchAll_loop ''companies'' 100 whole_payload srv 0 [] []"

definition UsersAPI_fetchAll_run :: "'a endpoint \<Rightarrow> (nat list \<times> (error + 'a list)) option" where
  "UsersAPI_fetchAll_run srv = fetchAll_loop ''users'' 100 whole_payload srv 0 [] []"

definition ProjectsAPI_fetchAll_run :: "'a endpoint \<Rightarrow> (nat list \<times> (error + 'a list)) option" where
  "ProjectsAPI_fetchAll_run srv = fetchAll_loop ''projects'' 200 results_or_payload srv 0 [] []"

definition CompaniesAPI_fetchAll :: "'a endpoint \<Rightarrow> (error + 'a list) option" where
  "CompaniesAPI_fetchAll srv = map_option snd (CompaniesAPI_fetchAll_run srv)"

definition UsersAPI_fetchAll :: "'a endpoint \<Rightarrow> (error + 'a list) option" where
  "UsersAPI_fetchAll srv = map_option snd (UsersAPI_fetchAll_run srv)"

definition ProjectsAPI_fetchAll :: "'a endpoint \<Rightarrow> (error + 'a list) option" where
  "ProjectsAPI_fetchAll srv = map_option snd (ProjectsAPI_fetchAll_run srv)"

section \<open>Per-project fetchers\<close>

text \<open>
  \<open>CompaniesAPI.fetchProjectCompanies\<close>: the \<open>try\<close> encloses the whole loop, so a rejected
  \<open>fetch\<close> or \<open>resp.json()\<close> returns \<open>[]\<close>; a response that is not a success leaves the loop
  by \<open>break\<close> and returns the pages collected so far.
\<close>

partial_function (option) fetchProjectCompanies_loop ::
  "'a endpoint \<Rightarrow> nat \<Rightarrow> 'a list \<Rightarrow> nat list \<Rightarrow> (nat list \<times> 'a list) option" where
  "fetchProjectCompanies_loop srv offset allCompanies reqs =
     (case srv offset of
        Rejected \<Rightarrow> Some (reqs @ [offset], [])
      | NotOk status body \<Rightarrow> Some (reqs @ [offset], allCompanies)
      | OkBadJson \<Rightarrow> Some (reqs @ [offset], [])
      | OkJson p \<Rightarrow>
          (case p of
             PArr batch \<Rightarrow>
               if length batch = 0 then Some (reqs @ [offset], allCompanies)
               else if length batch < 100 then Some (reqs @ [offset], allCompanies @ batch)
               else fetchProjectCompanies_loop srv (offset + 100) (allCompanies @ batch)
                      (reqs @ [offset])
           | _ \<Rightarrow> Some (reqs @ [offset], allCompanies)))"

declare fetchProjectCompanies_loop.simps [code]

definition fetchProjectCompanies_run :: "'a endpoint \<Rightarrow> (nat list \<times> 'a list) option" where
  "fetchProjectCompanies_run srv = fetchProjectCompanies_loop srv 0 [] []"

definition fetchProjectCompanies :: "'a endpoint \<Rightarrow> 'a list option" where
  "fetchProjectCompanies srv = map_option snd (fetchProjectCompanies_run srv)"

text \<open>
  \<open>UsersAPI.fetchProjectUsers\<close>: the \<open>try\<close> is inside the loop and its \<open>catch\<close> is a
  \<open>break\<close>, so every failure returns the users collected so far.  The offset advances by
  the number of results received.
\<close>

partial_function (option) fetchProjectUsers_loop ::
  "'a endpoint \<Rightarrow> nat \<Rightarrow> 'a list \<Rightarrow> nat list \<Rightarrow> (nat list \<times> 'a list) option" where
  "fetchProjectUsers_loop srv offset users reqs =
     (case srv offset of
        Rejected \<Rightarrow> Some (reqs @ [offset], users)
      | NotOk status body \<Rightarrow> Some (reqs @ [offset], users)
      | OkBadJson \<Rightarrow> Some (reqs @ [offset], users)
      | OkJson p \<Rightarrow>
          (case p of
             PObj results totalResults \<Rightarrow>
               (case results of
                  Arr batch \<Rightarrow>
                    if length batch = 0 then Some (reqs @ [offset], users)
                    else if (case totalResults of None \<Rightarrow> False
                             | Some t \<Rightarrow> t \<le> int (offset + length batch))
                      then Some (reqs @ [offset], users @ batch)
                    else if length batch < 100 then Some (reqs @ [offset], users @ batch)
                    else fetchProjectUsers_loop srv (offset + length batch) (users @ batch)
                           (reqs @ [offset])
                | _ \<Rightarrow> Some (reqs @ [offset], users))
           | _ \<Rightarrow> Some (reqs @ [offset], users)))"

declare fetchProjectUsers_loop.simps [code]

definition fetchProjectUsers_run :: "'a endpoint \<Rightarrow> (nat list \<times> 'a list) option" where
  "fetchProjectUsers_run srv = fetchProjectUsers_loop srv 0 [] []"

definition fetchProjectUsers :: "'a endpoint \<Rightarrow> 'a list option" where
  "fetchProjectUsers srv = map_option snd (fetchProjectUsers_run srv)"

section \<open>lib/cache-builder.js: the cache records\<close>

text \<open>
  The records the builder writes.  Every one of them starts with \<open>name\<close> and \<open>uuid\<close>; a
  \<open>named\<close> record alone is the company record embedded in a project.  The project record
  embedded in a company holds \<open>member_record\<close>s, the top-level project entry holds
  \<open>project_member\<close>s, which keep \<open>companyId\<close>.
\<close>

record named =
  name :: string
  uuid :: string

record member_record = named +
  email :: string

record project_member = member_record +
  companyId :: string

record 'm project_like = named +
  platform :: string
  members :: "'m list"

type_synonym project_record = "member_record project_like"

record project_entry = "project_member project_like" +
  companies :: "named list"

record company_entry = named +
  projects :: "project_record list"
  users :: "member_record list"

record caches =
  companiesCache :: "company_entry list"
  projectsCache :: "project_entry list"

section \<open>lib/cache-builder.js: sets, dictionaries and sorting\<close>

text \<open>
  \<open>localeCompare\<close> is the collation of the host's locale: a total preorder on strings, given
  here by a collation key \<open>ck\<close> into a linear order (two strings compare as their keys do).
  \<open>Array.prototype.sort\<close> with such a comparator is a stable sort; \<open>sort_key\<close> is the stable
  insertion sort.  Every list of the caches is sorted by
  \<open>(a.name || "").toLowerCase().localeCompare((b.name || "").toLowerCase())\<close>.
\<close>

definition name_key :: "(string \<Rightarrow> 'k) \<Rightarrow> 'a named_scheme \<Rightarrow> 'k" where
  "name_key ck r = ck (toLowerCase (name r))"

definition sort_by_name :: "(string \<Rightarrow> 'k::linorder) \<Rightarrow> 'a named_scheme list \<Rightarrow> 'a named_scheme list" where
  "sort_by_name ck rs = sort_key (name_key ck) rs"

text \<open>The string held by a property that was tested truthy.\<close>

definition str_of :: "string option \<Rightarrow> string" where
  "str_of v = (case v of None \<Rightarrow> [] | Some s \<Rightarrow> s)"

text \<open>A \<open>Set\<close> keeps its elements in insertion order; \<open>Set.prototype.add\<close>:\<close>

definition set_add :: "'a \<Rightarrow> 'a list \<Rightarrow> 'a list" where
  "set_add x s = (if x \<in> set s then s else s @ [x])"

text \<open>
  \<open>projectIdsByCompany\<close> is the one dictionary the builder iterates, so it is kept as the
  list of its entries in insertion order.
  \<open>(projectIdsByCompany[cid] ||= new Set()).add(pid)\<close>:
\<close>

fun add_project_id :: "string \<Rightarrow> string \<Rightarrow> (string \<times> string list) list \<Rightarrow> (string \<times> string list) list" where
  "add_project_id cid pid [] = [(cid, set_add pid [])]"
| "add_project_id cid pid ((k, s) # d) =
     (if k = cid then (k, set_add pid s) # d else (k, s) # add_project_id cid pid d)"

text \<open>
  \<open>Object.entries\<close> lists the keys that are array indices (canonical decimal numerals below
  \<open>2^32 - 1\<close>) first, in ascending numeric order, and then the other keys in insertion order.
\<close>

definition is_digit :: "char \<Rightarrow> bool" where
  "is_digit c = (48 \<le> (of_char c :: nat) \<and> (of_char c :: nat) \<le> 57)"

definition numeral_of :: "string \<Rightarrow> nat" where
  "numeral_of s = foldl (\<lambda>n c. 10 * n + (of_char c - 48)) 0 s"

definition is_array_index :: "string \<Rightarrow> bool" where
  "is_array_index s =
     (s \<noteq> [] \<and> list_all is_digit s \<and> (length s = 1 \<or> hd s \<noteq> CHR ''0'') \<and>
      numeral_of s < 4294967295)"

definition object_entries :: "(string \<times> 'v) list \<Rightarrow> (string \<times> 'v) list" where
  "object_entries d =
     sort_key (\<lambda>e. numeral_of (fst e)) (filter (\<lambda>e. is_array_index (fst e)) d) @
     filter (\<lambda>e. \<not> is_array_index (fst e)) d"

section \<open>lib/cache-builder.js: plain objects as dictionaries\<close>

text \<open>
  The dictionaries of the builder are plain objects created by \<open>{}\<close>, keyed by ids.  The own
  properties of such an object are a finite map.  Reading \<open>obj[k]\<close> yields the own property
  \<open>k\<close> if there is one; otherwise the property \<open>k\<close> of \<open>Object.prototype\<close> if it has one
  (a function, or \<open>Object.prototype\<close> itself for \<open>__proto__\<close>: a truthy value that is no
  array and no \<open>Set\<close>); otherwise \<open>undefined\<close>.
\<close>

definition Object_prototype_keys :: "string list" where
  "Object_prototype_keys =
     [''constructor'', ''__defineGetter__'', ''__defineSetter__'', ''hasOwnProperty'',
      ''__lookupGetter__'', ''__lookupSetter__'', ''isPrototypeOf'', ''propertyIsEnumerable'',
      ''toString'', ''valueOf'', ''__proto__'', ''toLocaleString'']"

datatype 'v property = Own 'v | Inherited | Missing

definition obj_get :: "(string \<rightharpoonup> 'v) \<Rightarrow> string \<Rightarrow> 'v property" where
  "obj_get obj k =
     (case obj k of
        Some v \<Rightarrow> Own v
      | None \<Rightarrow> if k \<in> set Object_prototype_keys then Inherited else Missing)"

text \<open>
  Three of the dictionaries are written by plain assignment only (\<open>obj[k] = v\<close> with an
  object or an array \<open>v\<close>): \<open>projectsById\<close>, \<open>companiesById\<close> and \<open>projectUsersCache\<close>.  The
  assignment makes \<open>k\<close> an own property, except for the key \<open>__proto__\<close>, where it replaces
  the prototype of the dictionary by \<open>v\<close>, which is what reading \<open>__proto__\<close> returns
  afterwards: in both cases a read at an assigned key returns the value last assigned to
  it, as in a finite map.  \<open>projectsById\<close> and \<open>projectUsersCache\<close> are read at project ids
  only, after every project id has been assigned.  \<open>companiesById\<close> is read at the keys of
  \<open>projectIdsByCompany\<close>, which are never properties of \<open>Object.prototype\<close> (step 3 throws
  on them), and only after step 4, which throws for a company whose id is \<open>__proto__\<close>: its
  reads at keys never assigned yield \<open>undefined\<close>.  These three are finite maps below.
\<close>

section \<open>lib/cache-builder.js: buildCompaniesCache\<close>

text \<open>The endpoints one build talks to; the per-project endpoints are keyed by project id.\<close>

record network =
  companies_srv :: "jsobj endpoint"
  users_srv :: "jsobj endpoint"
  projects_srv :: "jsobj endpoint"
  project_companies_srv :: "string \<Rightarrow> jsobj endpoint"
  project_users_srv :: "string \<Rightarrow> jsobj endpoint"

subsection \<open>Step 2: index lookups\<close>

text \<open>
  \<open>(usersByCompany[companyId] ||= []).push(user)\<close>: an own entry is pushed to, a missing
  one is created; at an inherited key the value read is truthy and has no \<open>push\<close>, so the
  call throws a \<open>TypeError\<close>.
\<close>

fun usersByCompany_of ::
  "jsobj list \<Rightarrow> (string \<rightharpoonup> jsobj list) \<Rightarrow> error + (string \<rightharpoonup> jsobj list)" where
  "usersByCompany_of [] usersByCompany = Inr usersByCompany"
| "usersByCompany_of (user # rest) usersByCompany =
     (let cid = js_or (user ''company_id'') (user ''companyId'')
      in if truthy cid
         then (case obj_get usersByCompany (str_of cid) of
                 Own us \<Rightarrow>
                   usersByCompany_of rest (usersByCompany(str_of cid \<mapsto> us @ [user]))
               | Missing \<Rightarrow>
                   usersByCompany_of rest (usersByCompany(str_of cid \<mapsto> [user]))
               | Inherited \<Rightarrow> Inl TypeError)
         else usersByCompany_of rest usersByCompany)"

fun byId_of :: "jsobj list \<Rightarrow> (string \<rightharpoonup> jsobj) \<Rightarrow> (string \<rightharpoonup> jsobj)" where
  "byId_of [] byId = byId"
| "byId_of (x # rest) byId =
     (if truthy (x ''id'') then byId_of rest (byId(str_of (x ''id'') \<mapsto> x))
      else byId_of rest byId)"

subsection \<open>Step 3: map companies to projects and cache project members\<close>

text \<open>
  The inner loop over the companies of one project.  At an inherited key the value read by
  \<open>projectIdsByCompany[comp.id] ||= new Set()\<close> is truthy and has no \<open>add\<close>, so the call
  throws a \<open>TypeError\<close>.
\<close>

fun record_project_companies ::
  "string \<Rightarrow> jsobj list \<Rightarrow> (string \<times> string list) list \<Rightarrow>
   error + (string \<times> string list) list" where
  "record_project_companies pid [] projectIdsByCompany = Inr projectIdsByCompany"
| "record_project_companies pid (company # rest) projectIdsByCompany =
     (if truthy (company ''id'')
      then (case obj_get (map_of projectIdsByCompany) (str_of (company ''id'')) of
              Inherited \<Rightarrow> Inl TypeError
            | _ \<Rightarrow>
                record_project_companies pid rest
                  (add_project_id (str_of (company ''id'')) pid projectIdsByCompany))
      else record_project_companies pid rest projectIdsByCompany)"

text \<open>
  The loop over the projects: for each project with an id, the companies fetch, the inner
  loop, then the members fetch.  The two fetchers never throw; the loop has no result when
  one of them never returns.
\<close>

fun map_projects ::
  "network \<Rightarrow> jsobj list \<Rightarrow> (string \<times> string list) list \<Rightarrow> (string \<rightharpoonup> jsobj list) \<Rightarrow>
   (error + (string \<times> string list) list \<times> (string \<rightharpoonup> jsobj list)) option" where
  "map_projects net [] projectIdsByCompany projectUsersCache =
     Some (Inr (projectIdsByCompany, projectUsersCache))"
| "map_projects net (project # rest) projectIdsByCompany projectUsersCache =
     (if \<not> truthy (project ''id'')
      then map_projects net rest projectIdsByCompany projectUsersCache
      else
        case fetchProjectCompanies (project_companies_srv net (str_of (project ''id''))) of
          None \<Rightarrow> None
        | Some projectCompanies \<Rightarrow>
            (case record_project_companies (str_of (project ''id'')) projectCompanies
                    projectIdsByCompany of
               Inl e \<Rightarrow> Some (Inl e)
             | Inr projectIdsByCompany' \<Rightarrow>
                 (case fetchProjectUsers (project_users_srv net (str_of (project ''id''))) of
                    None \<Rightarrow> None
                  | Some projectUsers \<Rightarrow>
                      map_projects net rest projectIdsByCompany'
                        (projectUsersCache(str_of (project ''id'') \<mapsto> projectUsers)))))"

subsection \<open>Step 4: assemble the companies payload\<close>

definition member_of :: "jsobj \<Rightarrow> member_record" where
  "member_of u =
     \<lparr>name = displayUserName u, uuid = str_of (u ''id''), email = or_empty (u ''email'')\<rparr>"

definition embedded_members ::
  "(string \<Rightarrow> 'k::linorder) \<Rightarrow> (string \<rightharpoonup> jsobj list) \<Rightarrow> jsobj \<Rightarrow> string \<Rightarrow> member_record list" where
  "embedded_members ck projectUsersCache company pid =
     sort_by_name ck
       (map member_of
          (filter (\<lambda>pu. pu ''companyId'' = company ''id'' \<and> truthy (pu ''id''))
             (case projectUsersCache pid of None \<Rightarrow> [] | Some pus \<Rightarrow> pus)))"

definition project_record_of ::
  "(string \<Rightarrow> 'k::linorder) \<Rightarrow> (string \<rightharpoonup> jsobj) \<Rightarrow> (string \<rightharpoonup> jsobj list) \<Rightarrow> jsobj \<Rightarrow> string \<Rightarrow>
   project_record" where
  "project_record_of ck projectsById projectUsersCache company pid =
     (let project = (case projectsById pid of None \<Rightarrow> (\<lambda>_. None) | Some p \<Rightarrow> p)
      in \<lparr>name = or_empty (project ''name''), uuid = pid,
          platform = or_empty (project ''platform''),
          members = embedded_members ck projectUsersCache company pid\<rparr>)"

text \<open>
  The entry pushed for a company, from its account users \<open>companyUsers\<close> and its sorted
  project ids \<open>companyProjectIds\<close>.
\<close>

definition company_entry_with ::
  "(string \<Rightarrow> 'k::linorder) \<Rightarrow> jsobj list \<Rightarrow> string list \<Rightarrow> (string \<rightharpoonup> jsobj) \<Rightarrow>
   (string \<rightharpoonup> jsobj list) \<Rightarrow> jsobj \<Rightarrow> company_entry" where
  "company_entry_with ck companyUsers companyProjectIds projectsById projectUsersCache company =
     (let userRecords =
            sort_by_name ck (map member_of (filter (\<lambda>u. truthy (u ''id'')) companyUsers));
          projectRecords =
            sort_by_name ck
              (map (project_record_of ck projectsById projectUsersCache company) companyProjectIds)
      in \<lparr>name = or_empty (company ''name''), uuid = str_of (company ''id''),
          projects = projectRecords, users = userRecords\<rparr>)"

text \<open>
  The body of the loop over the companies, for a company with an id: the two lookups, then
  the entry.  When the id is an inherited key, \<open>usersByCompany[comp.id] || []\<close> is the
  inherited value, which has no \<open>filter\<close>, and \<open>[...projectIdsByCompany[comp.id]]\<close> spreads
  a value that is not iterable: both throw a \<open>TypeError\<close>.
\<close>

definition company_entry_of ::
  "(string \<Rightarrow> 'k::linorder) \<Rightarrow> (string \<rightharpoonup> jsobj list) \<Rightarrow> (string \<rightharpoonup> jsobj) \<Rightarrow>
   (string \<times> string list) list \<Rightarrow> (string \<rightharpoonup> jsobj list) \<Rightarrow> jsobj \<Rightarrow>
   error + company_entry" where
  "company_entry_of ck usersByCompany projectsById projectIdsByCompany projectUsersCache company =
     (case obj_get usersByCompany (str_of (company ''id'')) of
        Inherited \<Rightarrow> Inl TypeError
      | usersEntry \<Rightarrow>
          (case obj_get (map_of projectIdsByCompany) (str_of (company ''id'')) of
             Inherited \<Rightarrow> Inl TypeError
           | idsEntry \<Rightarrow>
               Inr (company_entry_with ck
                      (case usersEntry of Own us \<Rightarrow> us | _ \<Rightarrow> [])
                      (case idsEntry of Own pids \<Rightarrow> sort pids | _ \<Rightarrow> [])
                      projectsById projectUsersCache company)))"

text \<open>The loop over the companies (it stops at the first throw), then the sort.\<close>

fun company_entries_of ::
  "(string \<Rightarrow> 'k::linorder) \<Rightarrow> (string \<rightharpoonup> jsobj list) \<Rightarrow> (string \<rightharpoonup> jsobj) \<Rightarrow>
   (string \<times> string list) list \<Rightarrow> (string \<rightharpoonup> jsobj list) \<Rightarrow> jsobj list \<Rightarrow>
   error + company_entry list" where
  "company_entries_of ck usersByCompany projectsById projectIdsByCompany projectUsersCache [] =
     Inr []"
| "company_entries_of ck usersByCompany projectsById projectIdsByCompany projectUsersCache
     (company # rest) =
     (if \<not> truthy (company ''id'')
      then company_entries_of ck usersByCompany projectsById projectIdsByCompany
             projectUsersCache rest
      else
        case company_entry_of ck usersByCompany projectsById projectIdsByCompany
               projectUsersCache company of
          Inl e \<Rightarrow> Inl e
        | Inr entry \<Rightarrow>
            (case company_entries_of ck usersByCompany projectsById projectIdsByCompany
                    projectUsersCache rest of
               Inl e \<Rightarrow> Inl e
             | Inr entries \<Rightarrow> Inr (entry # entries)))"

definition companiesResult_of ::
  "(string \<Rightarrow> 'k::linorder) \<Rightarrow> jsobj list \<Rightarrow> (string \<rightharpoonup> jsobj list) \<Rightarrow> (string \<rightharpoonup> jsobj) \<Rightarrow>
   (string \<times> string list) list \<Rightarrow> (string \<rightharpoonup> jsobj list) \<Rightarrow> error + company_entry list" where
  "companiesResult_of ck companies0 usersByCompany projectsById projectIdsByCompany projectUsersCache =
     (case company_entries_of ck usersByCompany projectsById projectIdsByCompany
             projectUsersCache companies0 of
        Inl e \<Rightarrow> Inl e
      | Inr entries \<Rightarrow> Inr (sort_by_name ck entries))"

subsection \<open>Step 5: assemble the projects payload\<close>

definition project_member_of :: "jsobj \<Rightarrow> project_member" where
  "project_member_of pu =
     \<lparr>name = displayUserName pu, uuid = str_of (pu ''id''), email = or_empty (pu ''email''),
      companyId = or_empty (pu ''companyId'')\<rparr>"

fun companyIdsForProject_of :: "string \<Rightarrow> (string \<times> string list) list \<Rightarrow> string list \<Rightarrow> string list" where
  "companyIdsForProject_of pid [] companyIdsForProject = companyIdsForProject"
| "companyIdsForProject_of pid ((compId, pidSet) # rest) companyIdsForProject =
     (if pid \<in> set pidSet
      then companyIdsForProject_of pid rest (set_add compId companyIdsForProject)
      else companyIdsForProject_of pid rest companyIdsForProject)"

definition company_record_of :: "(string \<rightharpoonup> jsobj) \<Rightarrow> string \<Rightarrow> named" where
  "company_record_of companiesById cid =
     \<lparr>name = (case companiesById cid of None \<Rightarrow> [] | Some company \<Rightarrow> or_empty (company ''name'')),
      uuid = cid\<rparr>"

definition project_entry_of ::
  "(string \<Rightarrow> 'k::linorder) \<Rightarrow> (string \<rightharpoonup> jsobj) \<Rightarrow> (string \<times> string list) list \<Rightarrow>
   (string \<rightharpoonup> jsobj list) \<Rightarrow> jsobj \<Rightarrow> project_entry" where
  "project_entry_of ck companiesById projectIdsByCompany projectUsersCache project =
     (let memberRecords =
            sort_by_name ck
              (map project_member_of
                 (filter (\<lambda>pu. truthy (pu ''id''))
                    (case projectUsersCache (str_of (project ''id'')) of
                       None \<Rightarrow> [] | Some pus \<Rightarrow> pus)));
          companyIdsForProject =
            companyIdsForProject_of (str_of (project ''id''))
              (object_entries projectIdsByCompany) [];
          projectCompanies =
            sort_by_name ck (map (company_record_of companiesById) companyIdsForProject)
      in \<lparr>name = or_empty (project ''name''), uuid = str_of (project ''id''),
          platform = or_empty (project ''platform''), members = memberRecords,
          companies = projectCompanies\<rparr>)"

definition projectsResult_of ::
  "(string \<Rightarrow> 'k::linorder) \<Rightarrow> jsobj list \<Rightarrow> (string \<rightharpoonup> jsobj) \<Rightarrow> (string \<times> string list) list \<Rightarrow>
   (string \<rightharpoonup> jsobj list) \<Rightarrow> project_entry list" where
  "projectsResult_of ck projects0 companiesById projectIdsByCompany projectUsersCache =
     sort_by_name ck
       (map (project_entry_of ck companiesById projectIdsByCompany projectUsersCache)
          (filter (\<lambda>project. truthy (project ''id'')) projects0))"

subsection \<open>The build\<close>

text \<open>Steps 4 and 5 on the fetched collections and the indexes of steps 2 and 3.\<close>

definition assemble ::
  "(string \<Rightarrow> 'k::linorder) \<Rightarrow> jsobj list \<Rightarrow> (string \<rightharpoonup> jsobj list) \<Rightarrow> jsobj list \<Rightarrow>
   (string \<times> string list) list \<Rightarrow> (string \<rightharpoonup> jsobj list) \<Rightarrow> error + caches" where
  "assemble ck companies0 usersByCompany projects0 projectIdsByCompany projectUsersCache =
     (case companiesResult_of ck companies0 usersByCompany (byId_of projects0 Map.empty)
             projectIdsByCompany projectUsersCache of
        Inl e \<Rightarrow> Inl e
      | Inr companiesResult \<Rightarrow>
          Inr \<lparr>companiesCache = companiesResult,
               projectsCache =
                 projectsResult_of ck projects0 (byId_of companies0 Map.empty)
                   projectIdsByCompany projectUsersCache\<rparr>)"

text \<open>
  \<open>buildCompaniesCache(token, accountId, onProgress)\<close>.  The token and the account id only
  select the endpoints; the progress callback is fire-and-forget and has no part in the
  result.  An account-level fetcher that throws aborts the build with its error, and so
  does a \<open>TypeError\<close> of steps 2, 3 and 4.
\<close>

definition buildCompaniesCache :: "(string \<Rightarrow> 'k::linorder) \<Rightarrow> network \<Rightarrow> (error + caches) option" where
  "buildCompaniesCache ck net =
     (case CompaniesAPI_fetchAll (companies_srv net) of
        None \<Rightarrow> None
      | Some (Inl e) \<Rightarrow> Some (Inl e)
      | Some (Inr companies0) \<Rightarrow>
          (case UsersAPI_fetchAll (users_srv net) of
             None \<Rightarrow> None
           | Some (Inl e) \<Rightarrow> Some (Inl e)
           | Some (Inr users0) \<Rightarrow>
               (case ProjectsAPI_fetchAll (projects_srv net) of
                  None \<Rightarrow> None
                | Some (Inl e) \<Rightarrow> Some (Inl e)
                | Some (Inr projects0) \<Rightarrow>
                    (case usersByCompany_of users0 Map.empty of
                       Inl e \<Rightarrow> Some (Inl e)
                     | Inr usersByCompany \<Rightarrow>
                         (case map_projects net projects0 [] Map.empty of
                            None \<Rightarrow> None
                          | Some (Inl e) \<Rightarrow> Some (Inl e)
                          | Some (Inr (projectIdsByCompany, projectUsersCache)) \<Rightarrow>
                              Some (assemble ck companies0 usersByCompany projects0
                                      projectIdsByCompany projectUsersCache))))))"

section \<open>background.js: storage and the token\<close>

text \<open>
  The values \<open>chrome.storage\<close> holds under the keys the worker uses: strings, numbers and
  the two cache arrays.  A storage area is a map from keys to such values; \<open>get\<close> reads
  it, and \<open>set(items)\<close> overwrites the keys of \<open>items\<close> whose value is not \<open>undefined\<close>,
  all at once.  \<open>chrome.storage.local\<close> is the persisted area, \<open>chrome.storage.session\<close>
  lives in memory.
\<close>

datatype stored =
    StStr string
  | StNum int
  | StCompanies "company_entry list"
  | StProjects "project_entry list"

type_synonym storage = "string \<Rightarrow> stored option"

definition stored_truthy :: "stored option \<Rightarrow> bool" where
  "stored_truthy v =
     (case v of
        None \<Rightarrow> False
      | Some (StStr s) \<Rightarrow> s \<noteq> []
      | Some (StNum n) \<Rightarrow> n \<noteq> 0
      | Some (StCompanies cs) \<Rightarrow> True
      | Some (StProjects ps) \<Rightarrow> True)"

fun defined_items :: "(string \<times> stored option) list \<Rightarrow> (string \<times> stored) list" where
  "defined_items [] = []"
| "defined_items ((k, None) # items) = defined_items items"
| "defined_items ((k, Some v) # items) = (k, v) # defined_items items"

definition storage_set :: "storage \<Rightarrow> (string \<times> stored) list \<Rightarrow> storage" where
  "storage_set area items = area ++ map_of items"

text \<open>
  What the worker does to the outside, in order: the token request, the writes to the two
  storage areas with the items written, and the API session of one cache build (all the
  requests of \<open>buildCompaniesCache\<close>).
\<close>

datatype effect =
    TokenRequest
  | SessionSet "(string \<times> stored) list"
  | ApiFetches
  | LocalSet "(string \<times> stored) list"

text \<open>The module state of the service worker: the flag, the two storage areas, the effects.\<close>

record worker =
  cacheBuilding :: bool
  local_area :: storage
  session_area :: storage
  effects :: "effect list"

text \<open>
  The answer of the token endpoint: the request is rejected; the response is not a success
  (status and body text); the body is not JSON; or it carries \<open>access_token\<close> (possibly
  absent) and the number \<open>expires_in\<close>.
\<close>

datatype token_response =
    TokenRejected
  | TokenNotOk nat "string option"
  | TokenBadJson
  | TokenOk "string option" int

text \<open>
  What the outside answers during one admitted invocation of \<open>triggerCacheBuild\<close>: the
  three readings of \<open>Date.now()\<close> (in \<open>ensureToken\<close>, in \<open>get2LeggedToken\<close>, before the
  write), the token endpoint, the API endpoints as seen with a given token and account id,
  and whether \<open>chrome.storage.local.set\<close> rejects (it then writes nothing).  The progress
  messages are fire-and-forget (\<open>sendProgress\<close> swallows a failed delivery) and are left out.
  One more answer is left to the outside, so that nothing is assumed about it: for a stored
  \<open>tokenExpiresAt\<close> that is not a number, whether
  \<open>Date.now() > data.tokenExpiresAt - 5 * 60 * 1000\<close> holds once the value is coerced to a
  number (the value of a numeric string, \<open>NaN\<close> for most other values).
\<close>

record outside =
  now_ensure :: int
  now_token :: int
  now_write :: int
  coerced_passed :: "stored \<Rightarrow> bool"
  token_srv :: token_response
  api :: "stored option \<Rightarrow> stored option \<Rightarrow> network"
  local_set_rejects :: bool

definition get2LeggedToken :: "outside \<Rightarrow> worker \<Rightarrow> (error + stored option) \<times> worker" where
  "get2LeggedToken out w =
     (if \<not> stored_truthy (local_area w ''apsClientId'') \<or>
         \<not> stored_truthy (local_area w ''apsClientSecret'')
      then (Inl CredentialsMissing, w)
      else
        let w1 = w\<lparr>effects := effects w @ [TokenRequest]\<rparr>
        in case token_srv out of
             TokenRejected \<Rightarrow> (Inl FetchRejected, w1)
           | TokenNotOk status body \<Rightarrow>
               (Inl (TokenRequestFailed status (case body of None \<Rightarrow> [] | Some b \<Rightarrow> b)), w1)
           | TokenBadJson \<Rightarrow> (Inl JsonRejected, w1)
           | TokenOk access_token expires_in \<Rightarrow>
               let token = map_option StStr access_token;
                   expiresAt = now_token out + expires_in * 1000;
                   items = defined_items
                     [(''accBearerToken'', token),
                      (''tokenExpiresAt'', Some (StNum expiresAt)),
                      (''accAccountId'', local_area w ''apsAccountId'')]
               in (Inr token,
                   w1\<lparr>session_area := storage_set (session_area w1) items,
                      effects := effects w1 @ [SessionSet items]\<rparr>))"

text \<open>
  \<open>ensureToken\<close>: the stored token is returned unless it or its expiry is missing or
  falsy, or the expiry is less than five minutes away.
\<close>

definition ensureToken :: "outside \<Rightarrow> worker \<Rightarrow> (error + stored option) \<times> worker" where
  "ensureToken out w =
     (if \<not> stored_truthy (session_area w ''accBearerToken'') \<or>
         \<not> stored_truthy (session_area w ''tokenExpiresAt'') \<or>
         (case session_area w ''tokenExpiresAt'' of
            None \<Rightarrow> False
          | Some (StNum expiresAt) \<Rightarrow> now_ensure out > expiresAt - 5 * 60 * 1000
          | Some v \<Rightarrow> coerced_passed out v)
      then get2LeggedToken out w
      else (Inr (session_area w ''accBearerToken''), w))"

section \<open>background.js: triggerCacheBuild\<close>

text \<open>
  An invocation of the async function \<open>triggerCacheBuild\<close> runs in two steps of the event
  loop that matter to other invocations.  The first step is synchronous: the test of
  \<open>cacheBuilding\<close>, which rejects the invocation at once, or else sets the flag.  The
  second is everything from the first \<open>await\<close> to the \<open>finally\<close>: between the two,
  another invocation can only run its own first step.
\<close>

definition triggerCacheBuild_enter :: "worker \<Rightarrow> error + worker" where
  "triggerCacheBuild_enter w =
     (if cacheBuilding w then Inl BuildInProgress else Inr (w\<lparr>cacheBuilding := True\<rparr>))"

text \<open>The items of the one write: both caches and the one clock reading, twice.\<close>

definition cache_items :: "caches \<Rightarrow> int \<Rightarrow> (string \<times> stored) list" where
  "cache_items cs now =
     [(''companiesCache'', StCompanies (companiesCache cs)),
      (''companiesCacheTimestamp'', StNum now),
      (''projectsCache'', StProjects (projectsCache cs)),
      (''projectsCacheTimestamp'', StNum now)]"

text \<open>The \<open>try\<close> block.  It has no result when the cache build never returns.\<close>

definition triggerCacheBuild_try ::
  "(string \<Rightarrow> 'k::linorder) \<Rightarrow> outside \<Rightarrow> worker \<Rightarrow>
   ((error + company_entry list) \<times> worker) option" where
  "triggerCacheBuild_try ck out w =
     (case ensureToken out w of
        (Inl e, w1) \<Rightarrow> Some (Inl e, w1)
      | (Inr token, w1) \<Rightarrow>
          let accountId = session_area w1 ''accAccountId''
          in if \<not> stored_truthy accountId then Some (Inl NoAccountId, w1)
             else
               case buildCompaniesCache ck (api out token accountId) of
                 None \<Rightarrow> None
               | Some (Inl e) \<Rightarrow> Some (Inl e, w1\<lparr>effects := effects w1 @ [ApiFetches]\<rparr>)
               | Some (Inr cs) \<Rightarrow>
                   let w2 = w1\<lparr>effects := effects w1 @ [ApiFetches]\<rparr>;
                       items = cache_items cs (now_write out)
                   in if local_set_rejects out then Some (Inl StorageRejected, w2)
                      else Some (Inr (companiesCache cs),
                                 w2\<lparr>local_area := storage_set (local_area w2) items,
                                    effects := effects w2 @ [LocalSet items]\<rparr>))"

text \<open>The \<open>try\<close> block followed by \<open>finally { cacheBuilding = false; }\<close>.\<close>

definition triggerCacheBuild_settle ::
  "(string \<Rightarrow> 'k::linorder) \<Rightarrow> outside \<Rightarrow> worker \<Rightarrow>
   ((error + company_entry list) \<times> worker) option" where
  "triggerCacheBuild_settle ck out w =
     (case triggerCacheBuild_try ck out w of
        None \<Rightarrow> None
      | Some (r, w1) \<Rightarrow> Some (r, w1\<lparr>cacheBuilding := False\<rparr>))"

text \<open>
  The events of the worker as far as cache builds go: a call of \<open>triggerCacheBuild\<close>, and
  the completion of the invocation in flight under what the outside answered.  A call is
  refused or admitted; a completion yields the result the admitted invocation settles
  with.  A completion with no invocation in flight is not a step.
\<close>

datatype event = Invoke | Complete outside

datatype observation =
    Refused error
  | Admitted
  | Settled "error + company_entry list"

definition worker_step ::
  "(string \<Rightarrow> 'k::linorder) \<Rightarrow> worker \<Rightarrow> event \<Rightarrow> (observation \<times> worker) option" where
  "worker_step ck w ev =
     (case ev of
        Invoke \<Rightarrow>
          (case triggerCacheBuild_enter w of
             Inl e \<Rightarrow> Some (Refused e, w)
           | Inr w1 \<Rightarrow> Some (Admitted, w1))
      | Complete out \<Rightarrow>
          if cacheBuilding w
          then (case triggerCacheBuild_settle ck out w of
                  None \<Rightarrow> None
                | Some (r, w1) \<Rightarrow> Some (Settled r, w1))
          else None)"

fun worker_run ::
  "(string \<Rightarrow> 'k::linorder) \<Rightarrow> worker \<Rightarrow> event list \<Rightarrow> (observation list \<times> worker) option" where
  "worker_run ck w [] = Some ([], w)"
| "worker_run ck w (ev # evs) =
     (case worker_step ck w ev of
        None \<Rightarrow> None
      | Some (ob, w1) \<Rightarrow>
          (case worker_run ck w1 evs of
             None \<Rightarrow> None
           | Some (obs, w2) \<Rightarrow> Some (ob # obs, w2)))"

section \<open>Notions used to state the properties\<close>

text \<open>A string is trimmed when it neither starts nor ends with white space.\<close>

definition trimmed :: "string \<Rightarrow> bool" where
  "trimmed s = (s = [] \<or> (\<not> is_ws (hd s) \<and> \<not> is_ws (last s)))"

subsection \<open>The pagination contract\<close>

text \<open>
  The offsets \<open>0, limit, \<dots>, n * limit\<close>, and an endpoint that answers the first
  \<open>length pages\<close> of them with full pages (at least \<open>limit\<close> items each).
\<close>

definition page_offsets :: "nat \<Rightarrow> nat \<Rightarrow> nat list" where
  "page_offsets limit n = map (\<lambda>k. k * limit) [0..<Suc n]"

definition full_pages ::
  "nat \<Rightarrow> ('a payload \<Rightarrow> error + 'a list option) \<Rightarrow> 'a endpoint \<Rightarrow> 'a list list \<Rightarrow> bool" where
  "full_pages limit batch_of srv pages =
     (\<forall>k<length pages. \<exists>p. srv (k * limit) = OkJson p \<and>
        batch_of p = Inr (Some (pages ! k)) \<and> limit \<le> length (pages ! k))"

text \<open>
  What an account-level fetcher returns, by the answer to the request that follows the full
  pages: a short or empty page and a batch that is not an array end the loop with every
  page in request order; a response that is not a success throws the error with the status
  code and the body; a rejected \<open>fetch\<close> or \<open>json()\<close> and a throwing batch read throw too.
\<close>

definition account_contract ::
  "('a endpoint \<Rightarrow> (nat list \<times> (error + 'a list)) option) \<Rightarrow> string \<Rightarrow> nat \<Rightarrow>
   ('a payload \<Rightarrow> error + 'a list option) \<Rightarrow> bool" where
  "account_contract run label limit batch_of =
     (\<forall>srv pages. full_pages limit batch_of srv pages \<longrightarrow>
        (let n = length pages; reqs = page_offsets limit n
         in (\<forall>p lastp. srv (n * limit) = OkJson p \<and> batch_of p = Inr (Some lastp) \<and>
                 length lastp < limit \<longrightarrow>
               run srv = Some (reqs, Inr (concat pages @ lastp))) \<and>
            (\<forall>p. srv (n * limit) = OkJson p \<and> batch_of p = Inr None \<longrightarrow>
               run srv = Some (reqs, Inr (concat pages))) \<and>
            (\<forall>status body. srv (n * limit) = NotOk status body \<longrightarrow>
               run srv =
                 Some (reqs, Inl (ApiError label status (case body of None \<Rightarrow> [] | Some b \<Rightarrow> b)))) \<and>
            (srv (n * limit) = Rejected \<longrightarrow> run srv = Some (reqs, Inl FetchRejected)) \<and>
            (srv (n * limit) = OkBadJson \<longrightarrow> run srv = Some (reqs, Inl JsonRejected)) \<and>
            (\<forall>p e. srv (n * limit) = OkJson p \<and> batch_of p = Inl e \<longrightarrow>
               run srv = Some (reqs, Inl e))))"

text \<open>
  \<open>fetchProjectCompanies\<close>: a response that is not a success returns the pages collected so
  far; a rejected \<open>fetch\<close> or \<open>json()\<close> returns \<open>[]\<close>.
\<close>

definition project_companies_contract ::
  "('a endpoint \<Rightarrow> (nat list \<times> 'a list) option) \<Rightarrow> bool" where
  "project_companies_contract run =
     (\<forall>srv pages. full_pages 100 whole_payload srv pages \<longrightarrow>
        (let n = length pages; reqs = page_offsets 100 n
         in (\<forall>p lastp. srv (n * 100) = OkJson p \<and> whole_payload p = Inr (Some lastp) \<and>
                 length lastp < 100 \<longrightarrow>
               run srv = Some (reqs, concat pages @ lastp)) \<and>
            (\<forall>p. srv (n * 100) = OkJson p \<and> whole_payload p = Inr None \<longrightarrow>
               run srv = Some (reqs, concat pages)) \<and>
            (\<forall>status body. srv (n * 100) = NotOk status body \<longrightarrow>
               run srv = Some (reqs, concat pages)) \<and>
            (srv (n * 100) = Rejected \<longrightarrow> run srv = Some (reqs, [])) \<and>
            (srv (n * 100) = OkBadJson \<longrightarrow> run srv = Some (reqs, []))))"

text \<open>
  \<open>fetchProjectUsers\<close> advances by the number of results received: the request after the
  pages \<open>pages\<close> is at the offset \<open>length (concat pages)\<close>.  The loop goes on after a page
  of at least 100 results that does not reach \<open>pagination.totalResults\<close>.
\<close>

definition users_offsets :: "'a list list \<Rightarrow> nat list" where
  "users_offsets pages = map (\<lambda>k. length (concat (take k pages))) [0..<Suc (length pages)]"

definition users_pages :: "'a endpoint \<Rightarrow> 'a list list \<Rightarrow> bool" where
  "users_pages srv pages =
     (\<forall>k<length pages. \<exists>tot. srv (length (concat (take k pages))) = OkJson (PObj (Arr (pages ! k)) tot) \<and>
        100 \<le> length (pages ! k) \<and>
        (\<forall>t. tot = Some t \<longrightarrow> int (length (concat (take (Suc k) pages))) < t))"

definition project_users_contract ::
  "('a endpoint \<Rightarrow> (nat list \<times> 'a list) option) \<Rightarrow> bool" where
  "project_users_contract run =
     (\<forall>srv pages. users_pages srv pages \<longrightarrow>
        (let off = length (concat pages); reqs = users_offsets pages
         in (\<forall>lastp tot. srv off = OkJson (PObj (Arr lastp) tot) \<and>
                 (length lastp < 100 \<or> (\<exists>t. tot = Some t \<and> t \<le> int (off + length lastp))) \<longrightarrow>
               run srv = Some (reqs, concat pages @ lastp)) \<and>
            (\<forall>p. srv off = OkJson p \<and> (\<forall>b tot. p \<noteq> PObj (Arr b) tot) \<longrightarrow>
               run srv = Some (reqs, concat pages)) \<and>
            (\<forall>status body. srv off = NotOk status body \<longrightarrow>
               run srv = Some (reqs, concat pages)) \<and>
            (srv off = Rejected \<longrightarrow> run srv = Some (reqs, concat pages)) \<and>
            (srv off = OkBadJson \<longrightarrow> run srv = Some (reqs, concat pages))))"

subsection \<open>Example endpoints\<close>

text \<open>One full page of 100 items at offset 0, and then a given answer to every other request.\<close>

definition one_page_then :: "'a \<Rightarrow> 'a payload response \<Rightarrow> 'a endpoint" where
  "one_page_then x r offset = (if offset = 0 then OkJson (PArr (replicate 100 x)) else r)"

definition one_results_page_then :: "'a \<Rightarrow> 'a payload response \<Rightarrow> 'a endpoint" where
  "one_results_page_then x r offset =
     (if offset = 0 then OkJson (PObj (Arr (replicate 100 x)) None) else r)"

subsection \<open>The association recorded by the mapper\<close>

text \<open>
  The pairs (company id, project id) held by the dictionary \<open>projectIdsByCompany\<close>, and the
  project-tree member record without its \<open>companyId\<close>.
\<close>

definition assoc_rel :: "(string \<times> string list) list \<Rightarrow> (string \<times> string) set" where
  "assoc_rel d = {(cid, pid). \<exists>s. map_of d cid = Some s \<and> pid \<in> set s}"

definition without_companyId :: "project_member \<Rightarrow> member_record" where
  "without_companyId m = \<lparr>name = name m, uuid = uuid m, email = email m\<rparr>"

text \<open>
  What the assembler returns when it does not throw: the entry of a company, read from the
  two indexes as finite maps, and the two caches.
\<close>

definition company_entry ::
  "(string \<Rightarrow> 'k::linorder) \<Rightarrow> (string \<rightharpoonup> jsobj list) \<Rightarrow> (string \<rightharpoonup> jsobj) \<Rightarrow>
   (string \<times> string list) list \<Rightarrow> (string \<rightharpoonup> jsobj list) \<Rightarrow> jsobj \<Rightarrow> company_entry" where
  "company_entry ck ubc pbi d puc company =
     company_entry_with ck
       (case ubc (str_of (company ''id'')) of None \<Rightarrow> [] | Some us \<Rightarrow> us)
       (case map_of d (str_of (company ''id'')) of None \<Rightarrow> [] | Some pids \<Rightarrow> sort pids)
       pbi puc company"

definition assembled ::
  "(string \<Rightarrow> 'k::linorder) \<Rightarrow> jsobj list \<Rightarrow> (string \<rightharpoonup> jsobj list) \<Rightarrow> jsobj list \<Rightarrow>
   (string \<times> string list) list \<Rightarrow> (string \<rightharpoonup> jsobj list) \<Rightarrow> caches" where
  "assembled ck cs ubc ps d puc =
     \<lparr>companiesCache =
        sort_by_name ck
          (map (company_entry ck ubc (byId_of ps Map.empty) d puc)
             (filter (\<lambda>company. truthy (company ''id'')) cs)),
      projectsCache = projectsResult_of ck ps (byId_of cs Map.empty) d puc\<rparr>"

text \<open>
  An id is plain when, if it is truthy, it does not name a property of \<open>Object.prototype\<close>.
\<close>

definition plain_key :: "string option \<Rightarrow> bool" where
  "plain_key v = (truthy v \<longrightarrow> str_of v \<notin> set Object_prototype_keys)"

text \<open>The ids of the projects that have one, in fetch order.\<close>

definition project_ids :: "jsobj list \<Rightarrow> string list" where
  "project_ids ps = map (\<lambda>p. str_of (p ''id'')) (filter (\<lambda>p. truthy (p ''id'')) ps)"

subsection \<open>An example account\<close>

text \<open>
  Three companies, two users (the second one with snake-case properties only) and two
  projects.  Project \<open>p1\<close> has the companies \<open>c1\<close> and \<open>c2\<close> and both users as members;
  for project \<open>p2\<close> the companies endpoint answers 404 and the members request is
  rejected.  \<open>code_unit_key\<close> is the
  collation that compares strings by their code units.
\<close>

definition code_unit_key :: "string \<Rightarrow> string" where
  "code_unit_key s = s"

definition first_page :: "'a payload \<Rightarrow> 'a endpoint" where
  "first_page p offset = (if offset = 0 then OkJson p else Rejected)"

definition example_companies :: "jsobj list" where
  "example_companies =
     [[''id'' \<mapsto> ''c1'', ''name'' \<mapsto> ''bravo''],
      [''id'' \<mapsto> ''c2'', ''name'' \<mapsto> ''Alpha''],
      [''id'' \<mapsto> ''c3'', ''name'' \<mapsto> ''charlie'']]"

definition example_users :: "jsobj list" where
  "example_users =
     [[''id'' \<mapsto> ''u1'', ''name'' \<mapsto> ''Jo'', ''companyId'' \<mapsto> ''c1''],
      [''id'' \<mapsto> ''u2'', ''first_name'' \<mapsto> ''Al'', ''last_name'' \<mapsto> ''Li'',
       ''company_id'' \<mapsto> ''c2'']]"

definition example_projects :: "jsobj list" where
  "example_projects =
     [[''id'' \<mapsto> ''p1'', ''name'' \<mapsto> ''Tower''],
      [''id'' \<mapsto> ''p2'', ''name'' \<mapsto> ''Bridge'']]"

definition example_p1_companies :: "jsobj list" where
  "example_p1_companies = [[''id'' \<mapsto> ''c1''], [''id'' \<mapsto> ''c2'']]"

definition example_net :: network where
  "example_net =
     \<lparr>companies_srv = first_page (PArr example_companies),
      users_srv = first_page (PArr example_users),
      projects_srv = first_page (PObj (Arr example_projects) None),
      project_companies_srv = (\<lambda>pid.
        if pid = ''p1'' then first_page (PArr example_p1_companies)
        else (\<lambda>offset. NotOk 404 None)),
      project_users_srv = (\<lambda>pid.
        if pid = ''p1'' then first_page (PObj (Arr example_users) None)
        else (\<lambda>offset. Rejected))\<rparr>"

definition example_caches :: caches where
  "example_caches =
     \<lparr>companiesCache =
        [\<lparr>name = ''Alpha'', uuid = ''c2'',
          projects = [\<lparr>name = ''Tower'', uuid = ''p1'', platform = [], members = []\<rparr>],
          users = [\<lparr>name = ''Al Li'', uuid = ''u2'', email = []\<rparr>]\<rparr>,
         \<lparr>name = ''bravo'', uuid = ''c1'',
          projects = [\<lparr>name = ''Tower'', uuid = ''p1'', platform = [],
                       members = [\<lparr>name = ''Jo'', uuid = ''u1'', email = []\<rparr>]\<rparr>],
          users = [\<lparr>name = ''Jo'', uuid = ''u1'', email = []\<rparr>]\<rparr>,
         \<lparr>name = ''charlie'', uuid = ''c3'', projects = [], users = []\<rparr>],
      projectsCache =
        [\<lparr>name = ''Bridge'', uuid = ''p2'', platform = [], members = [], companies = []\<rparr>,
         \<lparr>name = ''Tower'', uuid = ''p1'', platform = [],
          members = [\<lparr>name = ''Al Li'', uuid = ''u2'', email = [], companyId = []\<rparr>,
                     \<lparr>name = ''Jo'', uuid = ''u1'', email = [], companyId = ''c1''\<rparr>],
          companies = [\<lparr>name = ''Alpha'', uuid = ''c2''\<rparr>,
                       \<lparr>name = ''bravo'', uuid = ''c1''\<rparr>]\<rparr>]\<rparr>"

text \<open>
  Two projects whose names are equal up to case, fetched in the order \<open>b\<close>, \<open>a\<close>, both
  associated with the one company; no project has members.
\<close>

definition tie_projects :: "jsobj list" where
  "tie_projects =
     [[''id'' \<mapsto> ''b'', ''name'' \<mapsto> ''X''],
      [''id'' \<mapsto> ''a'', ''name'' \<mapsto> ''x'']]"

definition tie_net :: network where
  "tie_net =
     \<lparr>companies_srv = first_page (PArr [[''id'' \<mapsto> ''c1'', ''name'' \<mapsto> ''Acme'']]),
      users_srv = first_page (PArr []),
      projects_srv = first_page (PObj (Arr tie_projects) None),
      project_companies_srv = (\<lambda>pid. first_page (PArr [[''id'' \<mapsto> ''c1'']])),
      project_users_srv = (\<lambda>pid offset. Rejected)\<rparr>"

definition tie_caches :: caches where
  "tie_caches =
     \<lparr>companiesCache =
        [\<lparr>name = ''Acme'', uuid = ''c1'',
          projects = [\<lparr>name = ''x'', uuid = ''a'', platform = [], members = []\<rparr>,
                      \<lparr>name = ''X'', uuid = ''b'', platform = [], members = []\<rparr>],
          users = []\<rparr>],
      projectsCache =
        [\<lparr>name = ''X'', uuid = ''b'', platform = [], members = [],
          companies = [\<lparr>name = ''Acme'', uuid = ''c1''\<rparr>]\<rparr>,
         \<lparr>name = ''x'', uuid = ''a'', platform = [], members = [],
          companies = [\<lparr>name = ''Acme'', uuid = ''c1''\<rparr>]\<rparr>]\<rparr>"

subsection \<open>Sorted by name\<close>

text \<open>A list of records is sorted ascending by the collation key of the lower-cased name.\<close>

definition name_sorted :: "(string \<Rightarrow> 'k::linorder) \<Rightarrow> 'a named_scheme list \<Rightarrow> bool" where
  "name_sorted ck rs = sorted (map (name_key ck) rs)"

subsection \<open>Failing per-project fetches\<close>

text \<open>
  The failures after which a per-project fetch returns the empty list.  For the companies
  fetch: the first request gets a response that is not a success, or a request (the first
  one or one after full pages) is rejected or answered by a body that is not JSON.  For the
  members fetch: the first request fails in one of these ways, or is answered by \<open>null\<close>.
\<close>

definition companies_fetch_fails :: "'a endpoint \<Rightarrow> bool" where
  "companies_fetch_fails srv =
     ((\<exists>status body. srv 0 = NotOk status body) \<or>
      (\<exists>pages. full_pages 100 whole_payload srv pages \<and>
         (srv (length pages * 100) = Rejected \<or> srv (length pages * 100) = OkBadJson)))"

definition members_fetch_fails :: "'a endpoint \<Rightarrow> bool" where
  "members_fetch_fails srv =
     ((\<exists>status body. srv 0 = NotOk status body) \<or> srv 0 = Rejected \<or> srv 0 = OkBadJson \<or>
      srv 0 = OkJson PNull)"

text \<open>
  One company and one project, whose companies endpoint answers the first request with a
  full page (100 times the company) and the second one with status 500.
\<close>

definition partial_net :: network where
  "partial_net =
     \<lparr>companies_srv = first_page (PArr [[''id'' \<mapsto> ''c1'', ''name'' \<mapsto> ''Acme'']]),
      users_srv = first_page (PArr []),
      projects_srv = first_page (PObj (Arr [[''id'' \<mapsto> ''p1'', ''name'' \<mapsto> ''Tower'']]) None),
      project_companies_srv = (\<lambda>pid. one_page_then [''id'' \<mapsto> ''c1''] (NotOk 500 None)),
      project_users_srv = (\<lambda>pid offset. Rejected)\<rparr>"

definition partial_caches :: caches where
  "partial_caches =
     \<lparr>companiesCache =
        [\<lparr>name = ''Acme'', uuid = ''c1'',
          projects = [\<lparr>name = ''Tower'', uuid = ''p1'', platform = [], members = []\<rparr>],
          users = []\<rparr>],
      projectsCache =
        [\<lparr>name = ''Tower'', uuid = ''p1'', platform = [], members = [],
          companies = [\<lparr>name = ''Acme'', uuid = ''c1''\<rparr>]\<rparr>]\<rparr>"

subsection \<open>Writes to the persisted area\<close>

text \<open>The writes to \<open>chrome.storage.local\<close> among the effects, in order, with their items.\<close>

fun local_writes :: "effect list \<Rightarrow> (string \<times> stored) list list" where
  "local_writes [] = []"
| "local_writes (LocalSet items # es) = items # local_writes es"
| "local_writes (e # es) = local_writes es"

text \<open>
  A worker at rest with stored credentials, and two outsides for one invocation: in the
  first the token endpoint issues a token and the API is the example account; in the second
  the token endpoint answers 401.
\<close>

definition example_worker :: worker where
  "example_worker =
     \<lparr>cacheBuilding = False,
      local_area = [''apsClientId'' \<mapsto> StStr ''id'', ''apsClientSecret'' \<mapsto> StStr ''secret'',
                    ''apsAccountId'' \<mapsto> StStr ''account''],
      session_area = Map.empty,
      effects = []\<rparr>"

definition good_outside :: outside where
  "good_outside =
     \<lparr>now_ensure = 1000, now_token = 1001, now_write = 5000,
      coerced_passed = (\<lambda>v. False),
      token_srv = TokenOk (Some ''token'') 3600,
      api = (\<lambda>token accountId. example_net),
      local_set_rejects = False\<rparr>"

definition bad_outside :: outside where
  "bad_outside = good_outside\<lparr>token_srv := TokenNotOk 401 None\<rparr>"

text \<open>The two timestamps of the persisted area are equal (or both absent).\<close>

definition timestamps_agree :: "worker \<Rightarrow> bool" where
  "timestamps_agree w =
     (local_area w ''projectsCacheTimestamp'' = local_area w ''companiesCacheTimestamp'')"

text \<open>
  The example worker after one admitted invocation has completed under \<open>good_outside\<close>,
  and after one has completed under \<open>bad_outside\<close>.
\<close>

definition built_worker :: worker where
  "built_worker =
     \<lparr>cacheBuilding = False,
      local_area = storage_set (local_area example_worker) (cache_items example_caches 5000),
      session_area = storage_set Map.empty
        [(''accBearerToken'', StStr ''token''), (''tokenExpiresAt'', StNum 3601001),
         (''accAccountId'', StStr ''account'')],
      effects =
        [TokenRequest,
         SessionSet [(''accBearerToken'', StStr ''token''), (''tokenExpiresAt'', StNum 3601001),
                     (''accAccountId'', StStr ''account'')],
         ApiFetches,
         LocalSet (cache_items example_caches 5000)]\<rparr>"

definition failed_worker :: worker where
  "failed_worker = example_worker\<lparr>effects := [TokenRequest]\<rparr>"

text \<open>
  The example account with one more account user, whose company id names a property of
  \<open>Object.prototype\<close>.
\<close>

definition inherited_net :: network where
  "inherited_net =
     example_net\<lparr>users_srv :=
       first_page (PArr (example_users @ [[''id'' \<mapsto> ''u3'', ''companyId'' \<mapsto> ''constructor'']]))\<rparr>"

text \<open>
  One company and one project, whose fetched roster lists the same member twice (as offset
  pagination does when the membership changes between two page requests).
\<close>

definition dup_roster :: "jsobj list" where
  "dup_roster =
     [[''id'' \<mapsto> ''u1'', ''name'' \<mapsto> ''Jo'', ''companyId'' \<mapsto> ''c1''],
      [''id'' \<mapsto> ''u1'', ''name'' \<mapsto> ''Jo'', ''companyId'' \<mapsto> ''c1'']]"

definition dup_net :: network where
  "dup_net =
     \<lparr>companies_srv = first_page (PArr [[''id'' \<mapsto> ''c1'', ''name'' \<mapsto> ''Acme'']]),
      users_srv = first_page (PArr []),
      projects_srv = first_page (PObj (Arr [[''id'' \<mapsto> ''p1'', ''name'' \<mapsto> ''Tower'']]) None),
      project_companies_srv = (\<lambda>pid. first_page (PArr [[''id'' \<mapsto> ''c1'']])),
      project_users_srv = (\<lambda>pid. first_page (PObj (Arr dup_roster) None))\<rparr>"

definition dup_caches :: caches where
  "dup_caches =
     \<lparr>companiesCache =
        [\<lparr>name = ''Acme'', uuid = ''c1'',
          projects = [\<lparr>name = ''Tower'', uuid = ''p1'', platform = [],
                       members = [\<lparr>name = ''Jo'', uuid = ''u1'', email = []\<rparr>,
                                  \<lparr>name = ''Jo'', uuid = ''u1'', email = []\<rparr>]\<rparr>],
          users = []\<rparr>],
      projectsCache =
        [\<lparr>name = ''Tower'', uuid = ''p1'', platform = [],
          members = [\<lparr>name = ''Jo'', uuid = ''u1'', email = [], companyId = ''c1''\<rparr>,
                     \<lparr>name = ''Jo'', uuid = ''u1'', email = [], companyId = ''c1''\<rparr>],
          companies = [\<lparr>name = ''Acme'', uuid = ''c1''\<rparr>]\<rparr>]\<rparr>"

section \<open>Facts about trimming\<close>

lemma dropWhile_hd_id: "xs \<noteq> [] \<Longrightarrow> \<not> P (hd xs) \<Longrightarrow> dropWhile P xs = xs"
  by (cases xs) auto

lemma trim_trimmed: "trimmed s \<Longrightarrow> trim s = s"
  unfolding trimmed_def trim_def
  by (cases "s = []") (auto simp: dropWhile_hd_id hd_rev)

lemma trimmed_trim: "trimmed (trim s)"
proof -
  define a where "a = dropWhile is_ws s"
  define b where "b = dropWhile is_ws (rev a)"
  have tr: "trim s = rev b" by (simp add: trim_def a_def b_def)
  show ?thesis
  proof (cases "b = []")
    case True
    then show ?thesis by (simp add: trimmed_def tr)
  next
    case False
    then have hb: "\<not> is_ws (hd b)" unfolding b_def by (rule hd_dropWhile)
    have a_ne: "a \<noteq> []" using False by (auto simp: b_def)
    then have ha: "\<not> is_ws (hd a)" unfolding a_def by (rule hd_dropWhile)
    obtain ys where "rev a = ys @ b" unfolding b_def
      by (metis takeWhile_dropWhile_id)
    then have "rev (rev a) = rev (ys @ b)" by (rule arg_cong)
    then have "a = rev b @ rev ys" by simp
    then have "hd a = hd (rev b)" using False by simp
    with ha have "\<not> is_ws (hd (rev b))" by simp
    moreover from hb False have "\<not> is_ws (last (rev b))" by (simp add: last_rev)
    ultimately show ?thesis by (simp add: trimmed_def tr)
  qed
qed

lemma trim_idem: "trim (trim s) = trim s"
  by (simp add: trim_trimmed trimmed_trim)

lemma is_ws_space: "is_ws CHR '' ''"
  by (simp add: is_ws_def)

lemma trim_space_join:
  assumes "trimmed f" "trimmed l"
  shows "trim (f @ CHR '' '' # l) =
           (if f = [] then l else if l = [] then f else f @ CHR '' '' # l)"
proof (cases "f = []")
  case True
  have "trim (CHR '' '' # l) = trim l"
    by (simp add: trim_def is_ws_space)
  with True assms show ?thesis by (simp add: trim_trimmed)
next
  case fne: False
  show ?thesis
  proof (cases "l = []")
    case True
    have "trim (f @ [CHR '' '']) = trim f"
      using fne assms(1) by (cases f) (auto simp add: trim_def is_ws_space trimmed_def)
    with True fne assms show ?thesis by (simp add: trim_trimmed)
  next
    case False
    with fne assms have "trimmed (f @ CHR '' '' # l)" by (auto simp: trimmed_def)
    with fne False show ?thesis by (simp add: trim_trimmed)
  qed
qed

section \<open>Display names (C9)\<close>

text \<open>
  C9.  For every user record, \<open>displayUserName\<close> returns the trimmed \<open>name\<close> when that is
  not empty; otherwise it returns the trimmed first name and the trimmed last name joined by
  one space and trimmed again, where the first name is \<open>first_name || firstName\<close> and the
  last name is \<open>last_name || lastName\<close>.  The outer trim drops the joining space exactly
  when one of the two parts is empty, so the result never starts or ends with white space.
  When \<open>name\<close>, the first name and the last name are all empty or absent the result is the
  empty string.  The result is a string for every record made of string or absent properties.
\<close>

theorem displayUserName_fallback:
  "displayUserName user =
     (if trim (or_empty (user ''name'')) \<noteq> [] then trim (or_empty (user ''name''))
      else trim (trim (or_empty (js_or (user ''first_name'') (user ''firstName''))) @ '' '' @
                 trim (or_empty (js_or (user ''last_name'') (user ''lastName''))))) \<and>
   displayUserName user =
     (let n = trim (or_empty (user ''name''));
          f = trim (or_empty (js_or (user ''first_name'') (user ''firstName'')));
          l = trim (or_empty (js_or (user ''last_name'') (user ''lastName'')))
      in if n \<noteq> [] then n
         else if f = [] then l
         else if l = [] then f
         else f @ '' '' @ l) \<and>
   trimmed (displayUserName user) \<and>
   (\<not> truthy (user ''name'') \<and> \<not> truthy (user ''first_name'') \<and>
    \<not> truthy (user ''firstName'') \<and> \<not> truthy (user ''last_name'') \<and>
    \<not> truthy (user ''lastName'') \<longrightarrow> displayUserName user = [])"
proof -
  have blank: "\<not> truthy v \<Longrightarrow> or_empty (js_or v w) = or_empty w" for v w
    by (simp add: js_or_def or_empty_def)
  have blank': "\<not> truthy v \<Longrightarrow> or_empty v = []" for v
    by (auto simp add: js_or_def or_empty_def truthy_def split: option.splits)
  have e: "trim [] = []" "trim '' '' = []"
    by (simp_all add: trim_def is_ws_space)
  have c1: "displayUserName user =
     (if trim (or_empty (user ''name'')) \<noteq> [] then trim (or_empty (user ''name''))
      else trim (trim (or_empty (js_or (user ''first_name'') (user ''firstName''))) @ '' '' @
                 trim (or_empty (js_or (user ''last_name'') (user ''lastName'')))))"
    by (simp add: displayUserName_def Let_def)
  have c2: "displayUserName user =
     (let n = trim (or_empty (user ''name''));
          f = trim (or_empty (js_or (user ''first_name'') (user ''firstName'')));
          l = trim (or_empty (js_or (user ''last_name'') (user ''lastName'')))
      in if n \<noteq> [] then n
         else if f = [] then l
         else if l = [] then f
         else f @ '' '' @ l)"
    by (simp add: displayUserName_def Let_def trim_space_join trimmed_trim)
  have c3: "trimmed (displayUserName user)"
    by (simp add: displayUserName_def Let_def trimmed_trim)
  have c4: "\<not> truthy (user ''name'') \<and> \<not> truthy (user ''first_name'') \<and>
    \<not> truthy (user ''firstName'') \<and> \<not> truthy (user ''last_name'') \<and>
    \<not> truthy (user ''lastName'') \<longrightarrow> displayUserName user = []"
    by (simp add: displayUserName_def Let_def blank blank' e)
  from c1 c2 c3 c4 show ?thesis by blast
qed

theorem displayUserName_fallback_witness:
  "\<not> truthy None \<and> displayUserName (\<lambda>p. None) = [] \<and>
   displayUserName [''name'' \<mapsto> ''  '', ''firstName'' \<mapsto> '' Jo'', ''last_name'' \<mapsto> ''Li ''] = ''Jo Li''"
  using displayUserName_fallback [of "\<lambda>p. None"]
    displayUserName_fallback [of "[''name'' \<mapsto> ''  '', ''firstName'' \<mapsto> '' Jo'', ''last_name'' \<mapsto> ''Li '']"]
  by (simp add: truthy_def trim_def is_ws_def or_empty_def js_or_def)

section \<open>Staleness (C8)\<close>

text \<open>
  C8, as stated: \<open>isCacheStale\<close> is true exactly when the timestamp is absent or the age
  \<open>now - timestamp\<close> exceeds \<open>CACHE_MAX_AGE_MS\<close>.  The test \<open>!timestamp\<close> also holds for
  the timestamp \<open>0\<close>, whatever its age: with the clock at \<open>1000\<close> the timestamp \<open>0\<close> is
  present and one second old, and is stale.
\<close>

theorem isCacheStale_zero_timestamp:
  "isCacheStale (Some 0) 1000 \<noteq> (Some (0::int) = None \<or> (1000::int) - 0 > CACHE_MAX_AGE_MS)"
  by (simp add: isCacheStale_def CACHE_MAX_AGE_MS_def)

text \<open>
  C8, amended.  \<open>isCacheStale\<close> is true exactly when the timestamp is absent or zero, or the
  age strictly exceeds two hours (\<open>7200000\<close> ms).  An age of two hours and one millisecond is
  stale; an age of two hours less one millisecond is stale only for the timestamp \<open>0\<close>; an
  absent timestamp is stale.
\<close>

theorem isCacheStale_exact:
  "isCacheStale timestamp now =
     (timestamp = None \<or> timestamp = Some 0 \<or>
      (\<exists>ts. timestamp = Some ts \<and> now - ts > 7200000)) \<and>
   isCacheStale (Some (now - 7200000 - 1)) now \<and>
   isCacheStale (Some (now - 7200000 + 1)) now = (now - 7200000 + 1 = 0) \<and>
   isCacheStale None now"
  by (cases timestamp) (auto simp: isCacheStale_def CACHE_MAX_AGE_MS_def)

section \<open>The fetcher loops\<close>

lemma map_upt_Suc_shift: "map f [0..<Suc n] = f 0 # map (\<lambda>k. f (Suc k)) [0..<n]"
  by (simp add: upt_conv_Cons map_Suc_upt[symmetric] del: upt_Suc)

lemma fetchAll_loop_full_pages:
  assumes "0 < limit"
    and "\<forall>k<length pages. \<exists>p. srv (offset + k * limit) = OkJson p \<and>
           batch_of p = Inr (Some (pages ! k)) \<and> limit \<le> length (pages ! k)"
  shows "fetchAll_loop label limit batch_of srv offset acc reqs =
         fetchAll_loop label limit batch_of srv (offset + length pages * limit)
           (acc @ concat pages) (reqs @ map (\<lambda>k. offset + k * limit) [0..<length pages])"
  using assms(2)
proof (induction pages arbitrary: offset acc reqs)
  case Nil
  then show ?case by simp
next
  case (Cons pg pages)
  from Cons.prems obtain p where p: "srv offset = OkJson p" "batch_of p = Inr (Some pg)"
    "limit \<le> length pg" by fastforce
  have step: "fetchAll_loop label limit batch_of srv offset acc reqs =
        fetchAll_loop label limit batch_of srv (offset + limit) (acc @ pg) (reqs @ [offset])"
  proof -
    have "pg \<noteq> []" using p(3) assms(1) by auto
    with p show ?thesis by (subst fetchAll_loop.simps) simp
  qed
  have "\<forall>k<length pages. \<exists>p. srv (offset + limit + k * limit) = OkJson p \<and>
           batch_of p = Inr (Some (pages ! k)) \<and> limit \<le> length (pages ! k)"
  proof (intro allI impI)
    fix k assume "k < length pages"
    then have "Suc k < length (pg # pages)" by simp
    with Cons.prems have "\<exists>p. srv (offset + Suc k * limit) = OkJson p \<and>
           batch_of p = Inr (Some ((pg # pages) ! Suc k)) \<and> limit \<le> length ((pg # pages) ! Suc k)"
      by blast
    then show "\<exists>p. srv (offset + limit + k * limit) = OkJson p \<and>
           batch_of p = Inr (Some (pages ! k)) \<and> limit \<le> length (pages ! k)"
      by (simp add: add.assoc)
  qed
  from Cons.IH[OF this, of "acc @ pg" "reqs @ [offset]"] step
  show ?case
    by (simp add: map_upt_Suc_shift add.assoc del: upt_Suc)
qed

lemma fetchAll_loop_run:
  assumes "0 < limit" and "full_pages limit batch_of srv pages"
  shows "fetchAll_loop label limit batch_of srv 0 [] [] =
         fetchAll_loop label limit batch_of srv (length pages * limit) (concat pages)
           (map (\<lambda>k. k * limit) [0..<length pages])"
  using fetchAll_loop_full_pages[OF assms(1), of pages srv 0 batch_of label "[]" "[]"] assms(2)
  by (simp add: full_pages_def)

lemma account_contract_fetchAll_loop:
  assumes "0 < limit"
  shows "account_contract (\<lambda>srv. fetchAll_loop label limit batch_of srv 0 [] []) label limit batch_of"
  unfolding account_contract_def Let_def
proof (intro allI impI)
  fix srv :: "'a endpoint" and pages
  assume fp: "full_pages limit batch_of srv pages"
  note run = fetchAll_loop_run[OF assms fp, of label]
  have offs: "map (\<lambda>k. k * limit) [0..<length pages] @ [length pages * limit] =
      page_offsets limit (length pages)"
    by (simp add: page_offsets_def)
  show "(\<forall>p lastp. srv (length pages * limit) = OkJson p \<and> batch_of p = Inr (Some lastp) \<and>
                 length lastp < limit \<longrightarrow>
               fetchAll_loop label limit batch_of srv 0 [] [] = Some (page_offsets limit (length pages), Inr (concat pages @ lastp))) \<and>
            (\<forall>p. srv (length pages * limit) = OkJson p \<and> batch_of p = Inr None \<longrightarrow>
               fetchAll_loop label limit batch_of srv 0 [] [] = Some (page_offsets limit (length pages), Inr (concat pages))) \<and>
            (\<forall>status body. srv (length pages * limit) = NotOk status body \<longrightarrow>
               fetchAll_loop label limit batch_of srv 0 [] [] =
                 Some (page_offsets limit (length pages), Inl (ApiError label status (case body of None \<Rightarrow> [] | Some b \<Rightarrow> b)))) \<and>
            (srv (length pages * limit) = Rejected \<longrightarrow> fetchAll_loop label limit batch_of srv 0 [] [] = Some (page_offsets limit (length pages), Inl FetchRejected)) \<and>
            (srv (length pages * limit) = OkBadJson \<longrightarrow> fetchAll_loop label limit batch_of srv 0 [] [] = Some (page_offsets limit (length pages), Inl JsonRejected)) \<and>
            (\<forall>p e. srv (length pages * limit) = OkJson p \<and> batch_of p = Inl e \<longrightarrow>
               fetchAll_loop label limit batch_of srv 0 [] [] = Some (page_offsets limit (length pages), Inl e))"
    unfolding run offs[symmetric]
    by (intro conjI allI impI; subst fetchAll_loop.simps; auto)
qed

lemma fetchProjectCompanies_loop_full_pages:
  assumes "\<forall>k<length pages. \<exists>p. srv (offset + k * 100) = OkJson p \<and>
           whole_payload p = Inr (Some (pages ! k)) \<and> 100 \<le> length (pages ! k)"
  shows "fetchProjectCompanies_loop srv offset acc reqs =
         fetchProjectCompanies_loop srv (offset + length pages * 100)
           (acc @ concat pages) (reqs @ map (\<lambda>k. offset + k * 100) [0..<length pages])"
  using assms
proof (induction pages arbitrary: offset acc reqs)
  case Nil
  then show ?case by simp
next
  case (Cons pg pages)
  from Cons.prems obtain p where p: "srv offset = OkJson p" "whole_payload p = Inr (Some pg)"
    "100 \<le> length pg" by fastforce
  from p(2) have pa: "p = PArr pg"
    by (cases p) (simp_all add: whole_payload_def)
  have step: "fetchProjectCompanies_loop srv offset acc reqs =
        fetchProjectCompanies_loop srv (offset + 100) (acc @ pg) (reqs @ [offset])"
  proof -
    have "pg \<noteq> []" using p(3) by auto
    with p pa show ?thesis by (subst fetchProjectCompanies_loop.simps) simp
  qed
  have "\<forall>k<length pages. \<exists>p. srv (offset + 100 + k * 100) = OkJson p \<and>
           whole_payload p = Inr (Some (pages ! k)) \<and> 100 \<le> length (pages ! k)"
  proof (intro allI impI)
    fix k assume "k < length pages"
    then have "Suc k < length (pg # pages)" by simp
    with Cons.prems have "\<exists>p. srv (offset + Suc k * 100) = OkJson p \<and>
           whole_payload p = Inr (Some ((pg # pages) ! Suc k)) \<and>
           100 \<le> length ((pg # pages) ! Suc k)"
      by blast
    then show "\<exists>p. srv (offset + 100 + k * 100) = OkJson p \<and>
           whole_payload p = Inr (Some (pages ! k)) \<and> 100 \<le> length (pages ! k)"
      by (simp add: add.assoc)
  qed
  from Cons.IH[OF this, of "acc @ pg" "reqs @ [offset]"] step
  show ?case
    by (simp add: map_upt_Suc_shift add.assoc del: upt_Suc)
qed

lemma project_companies_contract_holds: "project_companies_contract fetchProjectCompanies_run"
  unfolding project_companies_contract_def Let_def
proof (intro allI impI)
  fix srv :: "'a endpoint" and pages
  assume fp: "full_pages 100 whole_payload srv pages"
  have run: "fetchProjectCompanies_run srv =
      fetchProjectCompanies_loop srv (length pages * 100) (concat pages)
        (map (\<lambda>k. k * 100) [0..<length pages])"
    using fetchProjectCompanies_loop_full_pages[of pages srv 0 "[]" "[]"] fp
    by (simp add: full_pages_def fetchProjectCompanies_run_def)
  have offs: "map (\<lambda>k. k * 100) [0..<length pages] @ [length pages * 100] =
      page_offsets 100 (length pages)"
    by (simp add: page_offsets_def)
  have arr: "whole_payload p = Inr (Some b) \<Longrightarrow> p = PArr b" for p :: "'a payload" and b
    by (cases p) (simp_all add: whole_payload_def)
  have narr: "whole_payload p = Inr None \<Longrightarrow> \<forall>b. p \<noteq> PArr b" for p :: "'a payload"
    by (cases p) (simp_all add: whole_payload_def)
  show "(\<forall>p lastp. srv (length pages * 100) = OkJson p \<and> whole_payload p = Inr (Some lastp) \<and>
                 length lastp < 100 \<longrightarrow>
               fetchProjectCompanies_run srv =
                 Some (page_offsets 100 (length pages), concat pages @ lastp)) \<and>
            (\<forall>p. srv (length pages * 100) = OkJson p \<and> whole_payload p = Inr None \<longrightarrow>
               fetchProjectCompanies_run srv =
                 Some (page_offsets 100 (length pages), concat pages)) \<and>
            (\<forall>status body. srv (length pages * 100) = NotOk status body \<longrightarrow>
               fetchProjectCompanies_run srv =
                 Some (page_offsets 100 (length pages), concat pages)) \<and>
            (srv (length pages * 100) = Rejected \<longrightarrow>
               fetchProjectCompanies_run srv = Some (page_offsets 100 (length pages), [])) \<and>
            (srv (length pages * 100) = OkBadJson \<longrightarrow>
               fetchProjectCompanies_run srv = Some (page_offsets 100 (length pages), []))"
    unfolding run offs[symmetric]
    by (intro conjI allI impI; subst fetchProjectCompanies_loop.simps;
        auto dest!: arr narr split: payload.splits)
qed

lemma fetchProjectUsers_loop_pages:
  assumes "\<forall>k<length pages. \<exists>tot.
             srv (offset + length (concat (take k pages))) = OkJson (PObj (Arr (pages ! k)) tot) \<and>
             100 \<le> length (pages ! k) \<and>
             (\<forall>t. tot = Some t \<longrightarrow> int (offset + length (concat (take (Suc k) pages))) < t)"
  shows "fetchProjectUsers_loop srv offset acc reqs =
         fetchProjectUsers_loop srv (offset + length (concat pages)) (acc @ concat pages)
           (reqs @ map (\<lambda>k. offset + length (concat (take k pages))) [0..<length pages])"
  using assms
proof (induction pages arbitrary: offset acc reqs)
  case Nil
  then show ?case by simp
next
  case (Cons pg pages)
  from Cons.prems have "\<exists>tot.
             srv (offset + length (concat (take 0 (pg # pages)))) =
               OkJson (PObj (Arr ((pg # pages) ! 0)) tot) \<and>
             100 \<le> length ((pg # pages) ! 0) \<and>
             (\<forall>t. tot = Some t \<longrightarrow>
                int (offset + length (concat (take (Suc 0) (pg # pages)))) < t)"
    by blast
  then obtain tot where p: "srv offset = OkJson (PObj (Arr pg) tot)" "100 \<le> length pg"
    "\<forall>t. tot = Some t \<longrightarrow> int (offset + length pg) < t" by auto
  have step: "fetchProjectUsers_loop srv offset acc reqs =
        fetchProjectUsers_loop srv (offset + length pg) (acc @ pg) (reqs @ [offset])"
  proof -
    have "pg \<noteq> []" using p(2) by auto
    with p show ?thesis
      by (subst fetchProjectUsers_loop.simps) (auto split: option.splits)
  qed
  have "\<forall>k<length pages. \<exists>tot.
             srv (offset + length pg + length (concat (take k pages))) =
               OkJson (PObj (Arr (pages ! k)) tot) \<and>
             100 \<le> length (pages ! k) \<and>
             (\<forall>t. tot = Some t \<longrightarrow>
                int (offset + length pg + length (concat (take (Suc k) pages))) < t)"
  proof (intro allI impI)
    fix k assume "k < length pages"
    then have "Suc k < length (pg # pages)" by simp
    with Cons.prems have "\<exists>tot.
             srv (offset + length (concat (take (Suc k) (pg # pages)))) =
               OkJson (PObj (Arr ((pg # pages) ! Suc k)) tot) \<and>
             100 \<le> length ((pg # pages) ! Suc k) \<and>
             (\<forall>t. tot = Some t \<longrightarrow>
                int (offset + length (concat (take (Suc (Suc k)) (pg # pages)))) < t)"
      by blast
    then show "\<exists>tot.
             srv (offset + length pg + length (concat (take k pages))) =
               OkJson (PObj (Arr (pages ! k)) tot) \<and>
             100 \<le> length (pages ! k) \<and>
             (\<forall>t. tot = Some t \<longrightarrow>
                int (offset + length pg + length (concat (take (Suc k) pages))) < t)"
      by (simp add: add.assoc)
  qed
  from Cons.IH[OF this, of "acc @ pg" "reqs @ [offset]"] step
  show ?case
    by (simp add: map_upt_Suc_shift add.assoc del: upt_Suc)
qed

lemma project_users_contract_holds: "project_users_contract fetchProjectUsers_run"
  unfolding project_users_contract_def Let_def
proof (intro allI impI)
  fix srv :: "'a endpoint" and pages
  assume fp: "users_pages srv pages"
  have run: "fetchProjectUsers_run srv =
      fetchProjectUsers_loop srv (length (concat pages)) (concat pages)
        (map (\<lambda>k. length (concat (take k pages))) [0..<length pages])"
    using fetchProjectUsers_loop_pages[of pages srv 0 "[]" "[]"] fp
    by (simp add: users_pages_def fetchProjectUsers_run_def)
  have offs: "map (\<lambda>k. length (concat (take k pages))) [0..<length pages] @
      [length (concat pages)] = users_offsets pages"
    by (simp add: users_offsets_def)
  show "(\<forall>lastp tot. srv (length (concat pages)) = OkJson (PObj (Arr lastp) tot) \<and>
                 (length lastp < 100 \<or>
                  (\<exists>t. tot = Some t \<and> t \<le> int (length (concat pages) + length lastp))) \<longrightarrow>
               fetchProjectUsers_run srv = Some (users_offsets pages, concat pages @ lastp)) \<and>
            (\<forall>p. srv (length (concat pages)) = OkJson p \<and> (\<forall>b tot. p \<noteq> PObj (Arr b) tot) \<longrightarrow>
               fetchProjectUsers_run srv = Some (users_offsets pages, concat pages)) \<and>
            (\<forall>status body. srv (length (concat pages)) = NotOk status body \<longrightarrow>
               fetchProjectUsers_run srv = Some (users_offsets pages, concat pages)) \<and>
            (srv (length (concat pages)) = Rejected \<longrightarrow>
               fetchProjectUsers_run srv = Some (users_offsets pages, concat pages)) \<and>
            (srv (length (concat pages)) = OkBadJson \<longrightarrow>
               fetchProjectUsers_run srv = Some (users_offsets pages, concat pages))"
    unfolding run offs[symmetric]
    by (intro conjI allI impI; subst fetchProjectUsers_loop.simps;
        auto split: payload.splits jfield.splits option.splits)
qed

lemma account_contract_NotOkD:
  assumes "account_contract run label limit batch_of"
    and "full_pages limit batch_of srv pages"
    and "srv (length pages * limit) = NotOk status body"
  shows "run srv = Some (page_offsets limit (length pages),
           Inl (ApiError label status (case body of None \<Rightarrow> [] | Some b \<Rightarrow> b)))"
  using assms unfolding account_contract_def Let_def by blast

lemma project_companies_contract_NotOkD:
  assumes "project_companies_contract run"
    and "full_pages 100 whole_payload srv pages"
    and "srv (length pages * 100) = NotOk status body"
  shows "run srv = Some (page_offsets 100 (length pages), concat pages)"
  using assms unfolding project_companies_contract_def Let_def by blast

lemma project_companies_contract_RejectedD:
  assumes "project_companies_contract run"
    and "full_pages 100 whole_payload srv pages"
    and "srv (length pages * 100) = Rejected"
  shows "run srv = Some (page_offsets 100 (length pages), [])"
  using assms unfolding project_companies_contract_def Let_def by blast

lemma project_users_contract_RejectedD:
  assumes "project_users_contract run"
    and "users_pages srv pages"
    and "srv (length (concat pages)) = Rejected"
  shows "run srv = Some (users_offsets pages, concat pages)"
  using assms unfolding project_users_contract_def Let_def by blast

lemma project_users_contract_NotOkD:
  assumes "project_users_contract run"
    and "users_pages srv pages"
    and "srv (length (concat pages)) = NotOk status body"
  shows "run srv = Some (users_offsets pages, concat pages)"
  using assms unfolding project_users_contract_def Let_def by blast

section \<open>Sorting and the association index\<close>

subsection \<open>Sorting\<close>

lemma map_insort_key:
  "map g (insort_key (\<lambda>x. f (g x)) a xs) = insort_key f (g a) (map g xs)"
  by (induction xs) simp_all

lemma map_sort_key: "map g (sort_key (\<lambda>x. f (g x)) xs) = sort_key f (map g xs)"
  by (induction xs) (simp_all add: map_insort_key)

lemma set_sort_by_name [simp]: "set (sort_by_name ck rs) = set rs"
  by (simp add: sort_by_name_def)

lemma sorted_sort_by_name: "sorted (map (name_key ck) (sort_by_name ck rs))"
  by (simp add: sort_by_name_def)

lemma sort_by_name_stable:
  "filter (\<lambda>r. name_key ck r = k) (sort_by_name ck rs) = filter (\<lambda>r. name_key ck r = k) rs"
  by (simp add: sort_by_name_def sort_key_stable)

lemma filter_sort_by_name:
  "filter P (sort_by_name ck rs) = sort_by_name ck (filter P rs)"
  by (simp add: sort_by_name_def filter_sort)

lemma map_sort_by_name:
  assumes "\<And>r. name (g r) = name r"
  shows "map g (sort_by_name ck rs) = sort_by_name ck (map g rs)"
proof -
  have "name_key ck = (\<lambda>r. name_key ck (g r))"
    by (rule ext) (simp add: name_key_def assms)
  then have "sort_by_name ck rs = sort_key (\<lambda>r. name_key ck (g r)) rs"
    by (simp add: sort_by_name_def)
  then show ?thesis
    by (simp add: map_sort_key sort_by_name_def)
qed

subsection \<open>The association index\<close>

lemma map_of_add_project_id:
  "map_of (add_project_id cid pid d) k =
     (if k = cid then Some (set_add pid (case map_of d cid of None \<Rightarrow> [] | Some s \<Rightarrow> s))
      else map_of d k)"
  by (induction cid pid d rule: add_project_id.induct) auto

lemma keys_add_project_id:
  "fst ` set (add_project_id cid pid d) = insert cid (fst ` set d)"
  by (induction cid pid d rule: add_project_id.induct) auto

lemma distinct_add_project_id:
  "distinct (map fst d) \<Longrightarrow> distinct (map fst (add_project_id cid pid d))"
proof (induction d)
  case Nil
  then show ?case by simp
next
  case (Cons e d)
  obtain k s where e: "e = (k, s)" by (cases e)
  show ?case
  proof (cases "k = cid")
    case True
    with Cons e show ?thesis by simp
  next
    case False
    have "fst ` set (add_project_id cid pid d) = insert cid (fst ` set d)"
      by (rule keys_add_project_id)
    with False Cons e show ?thesis by auto
  qed
qed

lemma set_set_add [simp]: "set (set_add x s) = insert x (set s)"
  by (auto simp: set_add_def)

lemma assoc_rel_add_project_id:
  "assoc_rel (add_project_id cid pid d) = insert (cid, pid) (assoc_rel d)"
  by (auto simp: assoc_rel_def map_of_add_project_id split: option.splits if_splits)

lemma assoc_rel_Nil [simp]: "assoc_rel [] = {}"
  by (simp add: assoc_rel_def)

lemma obj_get_Inherited:
  "obj_get obj k = Inherited \<longleftrightarrow> obj k = None \<and> k \<in> set Object_prototype_keys"
  by (simp add: obj_get_def split: option.splits)

lemma record_project_companies_Cons:
  "record_project_companies pid (c # cs) d =
     (if truthy (c ''id'')
      then if obj_get (map_of d) (str_of (c ''id'')) = Inherited then Inl TypeError
           else record_project_companies pid cs (add_project_id (str_of (c ''id'')) pid d)
      else record_project_companies pid cs d)"
  by (simp split: property.splits)

lemma record_project_companies_assoc:
  assumes "record_project_companies pid cs d = Inr d'"
  shows "assoc_rel d' =
     assoc_rel d \<union> {(str_of (c ''id''), pid) | c. c \<in> set cs \<and> truthy (c ''id'')}"
  using assms
proof (induction cs arbitrary: d)
  case Nil
  then show ?case by simp
next
  case (Cons c cs)
  show ?case
  proof (cases "truthy (c ''id'')")
    case True
    with Cons.prems have
      r: "record_project_companies pid cs (add_project_id (str_of (c ''id'')) pid d) = Inr d'"
      by (simp add: record_project_companies_Cons del: record_project_companies.simps
            split: if_splits)
    from Cons.IH[OF r] True show ?thesis
      by (auto simp: assoc_rel_add_project_id)
  next
    case False
    with Cons.prems have "record_project_companies pid cs d = Inr d'" by simp
    from Cons.IH[OF this] False show ?thesis by auto
  qed
qed

lemma record_project_companies_distinct:
  assumes "record_project_companies pid cs d = Inr d'" and "distinct (map fst d)"
  shows "distinct (map fst d')"
  using assms
proof (induction cs arbitrary: d)
  case Nil
  then show ?case by simp
next
  case (Cons c cs)
  show ?case
  proof (cases "truthy (c ''id'')")
    case True
    with Cons.prems(1) have
      r: "record_project_companies pid cs (add_project_id (str_of (c ''id'')) pid d) = Inr d'"
      by (simp add: record_project_companies_Cons del: record_project_companies.simps
            split: if_splits)
    from Cons.IH[OF r] Cons.prems(2) show ?thesis
      by (simp add: distinct_add_project_id)
  next
    case False
    with Cons.prems(1) have "record_project_companies pid cs d = Inr d'" by simp
    from Cons.IH[OF this] Cons.prems(2) show ?thesis by simp
  qed
qed

lemma record_project_companies_returns:
  assumes "\<forall>c \<in> set cs. plain_key (c ''id'')"
  shows "\<exists>d'. record_project_companies pid cs d = Inr d'"
  using assms
proof (induction cs arbitrary: d)
  case Nil
  then show ?case by simp
next
  case (Cons c cs)
  show ?case
  proof (cases "truthy (c ''id'')")
    case True
    with Cons.prems have "obj_get (map_of d) (str_of (c ''id'')) \<noteq> Inherited"
      by (simp add: obj_get_Inherited plain_key_def)
    with True Cons show ?thesis
      by (simp add: record_project_companies_Cons del: record_project_companies.simps)
  next
    case False
    with Cons show ?thesis by simp
  qed
qed

subsection \<open>The users index\<close>

lemma usersByCompany_of_Cons:
  "usersByCompany_of (u # us) m =
     (let cid = js_or (u ''company_id'') (u ''companyId'')
      in if truthy cid
         then if obj_get m (str_of cid) = Inherited then Inl TypeError
              else usersByCompany_of us
                     (m(str_of cid \<mapsto> (case m (str_of cid) of None \<Rightarrow> [] | Some l \<Rightarrow> l) @ [u]))
         else usersByCompany_of us m)"
  by (simp add: Let_def obj_get_def split: option.splits)

lemma usersByCompany_of_returns:
  assumes "\<forall>u \<in> set us. plain_key (js_or (u ''company_id'') (u ''companyId''))"
  shows "\<exists>ubc. usersByCompany_of us m = Inr ubc"
  using assms
proof (induction us arbitrary: m)
  case Nil
  then show ?case by simp
next
  case (Cons u us)
  let ?k = "js_or (u ''company_id'') (u ''companyId'')"
  show ?case
  proof (cases "truthy ?k")
    case False
    with Cons show ?thesis
      by (simp add: usersByCompany_of_Cons Let_def del: usersByCompany_of.simps)
  next
    case True
    with Cons.prems have "obj_get m (str_of ?k) \<noteq> Inherited"
      by (simp add: obj_get_Inherited plain_key_def)
    with True Cons show ?thesis
      by (simp add: usersByCompany_of_Cons Let_def del: usersByCompany_of.simps)
  qed
qed

section \<open>The mapper\<close>

subsection \<open>Step 3\<close>

lemma project_ids_Cons:
  "project_ids (p # ps) = (if truthy (p ''id'') then str_of (p ''id'') # project_ids ps else project_ids ps)"
  by (simp add: project_ids_def)

lemma project_ids_Nil [simp]: "project_ids [] = []"
  by (simp add: project_ids_def)

lemma map_projects_fetches:
  assumes "map_projects net ps d puc = Some (Inr (d', puc'))" and "pid \<in> set (project_ids ps)"
  shows "\<exists>pc pu. fetchProjectCompanies (project_companies_srv net pid) = Some pc \<and>
                 fetchProjectUsers (project_users_srv net pid) = Some pu"
  using assms
proof (induction ps arbitrary: d puc)
  case Nil
  then show ?case by simp
next
  case (Cons p ps)
  show ?case
  proof (cases "truthy (p ''id'')")
    case False
    with Cons show ?thesis by (simp add: project_ids_Cons)
  next
    case True
    with Cons.prems(1) obtain pc pu d1 where
      f: "fetchProjectCompanies (project_companies_srv net (str_of (p ''id''))) = Some pc"
         "fetchProjectUsers (project_users_srv net (str_of (p ''id''))) = Some pu"
      and rc: "record_project_companies (str_of (p ''id'')) pc d = Inr d1"
      and r: "map_projects net ps d1 (puc(str_of (p ''id'') \<mapsto> pu)) = Some (Inr (d', puc'))"
      by (auto split: option.splits sum.splits)
    show ?thesis
    proof (cases "pid = str_of (p ''id'')")
      case True
      with f show ?thesis by simp
    next
      case False
      with Cons.prems(2) True have "pid \<in> set (project_ids ps)" by (simp add: project_ids_Cons)
      with Cons.IH[OF r] show ?thesis by simp
    qed
  qed
qed

lemma map_projects_users:
  assumes "map_projects net ps d puc = Some (Inr (d', puc'))"
  shows "puc' pid = (if pid \<in> set (project_ids ps)
                     then fetchProjectUsers (project_users_srv net pid) else puc pid)"
  using assms
proof (induction ps arbitrary: d puc)
  case Nil
  then show ?case by simp
next
  case (Cons p ps)
  show ?case
  proof (cases "truthy (p ''id'')")
    case False
    with Cons show ?thesis by (simp add: project_ids_Cons)
  next
    case True
    with Cons.prems(1) obtain pc pu d1 where
      f: "fetchProjectCompanies (project_companies_srv net (str_of (p ''id''))) = Some pc"
         "fetchProjectUsers (project_users_srv net (str_of (p ''id''))) = Some pu"
      and rc: "record_project_companies (str_of (p ''id'')) pc d = Inr d1"
      and r: "map_projects net ps d1 (puc(str_of (p ''id'') \<mapsto> pu)) = Some (Inr (d', puc'))"
      by (auto split: option.splits sum.splits)
    from Cons.IH[OF r] True f show ?thesis
      by (auto simp add: project_ids_Cons)
  qed
qed

lemma map_projects_assoc:
  assumes "map_projects net ps d puc = Some (Inr (d', puc'))"
  shows "assoc_rel d' = assoc_rel d \<union>
           {(str_of (c ''id''), pid) | c pid pc. pid \<in> set (project_ids ps) \<and>
              fetchProjectCompanies (project_companies_srv net pid) = Some pc \<and>
              c \<in> set pc \<and> truthy (c ''id'')}"
  using assms
proof (induction ps arbitrary: d puc)
  case Nil
  then show ?case by simp
next
  case (Cons p ps)
  show ?case
  proof (cases "truthy (p ''id'')")
    case False
    with Cons show ?thesis by (simp add: project_ids_Cons)
  next
    case True
    with Cons.prems(1) obtain pc pu d1 where
      f: "fetchProjectCompanies (project_companies_srv net (str_of (p ''id''))) = Some pc"
         "fetchProjectUsers (project_users_srv net (str_of (p ''id''))) = Some pu"
      and rc: "record_project_companies (str_of (p ''id'')) pc d = Inr d1"
      and r: "map_projects net ps d1 (puc(str_of (p ''id'') \<mapsto> pu)) = Some (Inr (d', puc'))"
      by (auto split: option.splits sum.splits)
    from Cons.IH[OF r] True f show ?thesis
      by (auto simp add: project_ids_Cons record_project_companies_assoc[OF rc])
  qed
qed

lemma map_projects_distinct:
  assumes "map_projects net ps d puc = Some (Inr (d', puc'))" and "distinct (map fst d)"
  shows "distinct (map fst d')"
  using assms
proof (induction ps arbitrary: d puc)
  case Nil
  then show ?case by simp
next
  case (Cons p ps)
  show ?case
  proof (cases "truthy (p ''id'')")
    case False
    with Cons show ?thesis by simp
  next
    case True
    with Cons.prems(1) obtain pc pu d1 where
      rc: "record_project_companies (str_of (p ''id'')) pc d = Inr d1"
      and r: "map_projects net ps d1 (puc(str_of (p ''id'') \<mapsto> pu)) = Some (Inr (d', puc'))"
      by (auto split: option.splits sum.splits)
    from Cons.IH[OF r] record_project_companies_distinct[OF rc] Cons.prems(2) show ?thesis
      by simp
  qed
qed

lemma map_projects_returns:
  assumes "\<forall>pid \<in> set (project_ids ps).
             fetchProjectCompanies (project_companies_srv net pid) \<noteq> None \<and>
             fetchProjectUsers (project_users_srv net pid) \<noteq> None"
    and "\<forall>pid \<in> set (project_ids ps). \<forall>pc.
             fetchProjectCompanies (project_companies_srv net pid) = Some pc \<longrightarrow>
             (\<forall>c \<in> set pc. plain_key (c ''id''))"
  shows "\<exists>d' puc'. map_projects net ps d puc = Some (Inr (d', puc'))"
  using assms
proof (induction ps arbitrary: d puc)
  case Nil
  then show ?case by simp
next
  case (Cons p ps)
  from Cons.prems have rest: "\<forall>pid \<in> set (project_ids ps).
             fetchProjectCompanies (project_companies_srv net pid) \<noteq> None \<and>
             fetchProjectUsers (project_users_srv net pid) \<noteq> None"
    "\<forall>pid \<in> set (project_ids ps). \<forall>pc.
             fetchProjectCompanies (project_companies_srv net pid) = Some pc \<longrightarrow>
             (\<forall>c \<in> set pc. plain_key (c ''id''))"
    by (simp_all add: project_ids_Cons split: if_splits)
  show ?case
  proof (cases "truthy (p ''id'')")
    case False
    with Cons.IH[OF rest] show ?thesis by simp
  next
    case True
    with Cons.prems(1) obtain pc pu where
      f: "fetchProjectCompanies (project_companies_srv net (str_of (p ''id''))) = Some pc"
         "fetchProjectUsers (project_users_srv net (str_of (p ''id''))) = Some pu"
      by (auto simp add: project_ids_Cons)
    from Cons.prems(2) True f(1) have "\<forall>c \<in> set pc. plain_key (c ''id'')"
      by (simp add: project_ids_Cons)
    from record_project_companies_returns[OF this] obtain d1 where
      rc: "record_project_companies (str_of (p ''id'')) pc d = Inr d1" by blast
    from Cons.IH[OF rest] obtain d' puc' where
      "map_projects net ps d1 (puc(str_of (p ''id'') \<mapsto> pu)) = Some (Inr (d', puc'))"
      by blast
    with True f rc show ?thesis by simp
  qed
qed

section \<open>The assembler\<close>

subsection \<open>The assembled entries\<close>

lemma uuid_project_record_of [simp]:
  "uuid (project_record_of ck pbi puc company pid) = pid"
  by (simp add: project_record_of_def Let_def)

lemma members_project_record_of [simp]:
  "members (project_record_of ck pbi puc company pid) = embedded_members ck puc company pid"
  by (simp add: project_record_of_def Let_def)

lemma uuid_company_entry [simp]:
  "uuid (company_entry ck ubc pbi d puc company) = str_of (company ''id'')"
  by (simp add: company_entry_def company_entry_with_def Let_def)

lemma name_company_entry [simp]:
  "name (company_entry ck ubc pbi d puc company) = or_empty (company ''name'')"
  by (simp add: company_entry_def company_entry_with_def Let_def)

lemma projects_company_entry:
  "projects (company_entry ck ubc pbi d puc company) =
     sort_by_name ck (map (project_record_of ck pbi puc company)
       (case map_of d (str_of (company ''id'')) of None \<Rightarrow> [] | Some pids \<Rightarrow> sort pids))"
  by (simp add: company_entry_def company_entry_with_def Let_def)

lemma users_company_entry:
  "users (company_entry ck ubc pbi d puc company) =
     sort_by_name ck (map member_of (filter (\<lambda>u. truthy (u ''id''))
       (case ubc (str_of (company ''id'')) of None \<Rightarrow> [] | Some us \<Rightarrow> us)))"
  by (simp add: company_entry_def company_entry_with_def Let_def)

lemma uuid_project_entry_of [simp]:
  "uuid (project_entry_of ck cbi d puc project) = str_of (project ''id'')"
  by (simp add: project_entry_of_def Let_def)

lemma name_project_entry_of [simp]:
  "name (project_entry_of ck cbi d puc project) = or_empty (project ''name'')"
  by (simp add: project_entry_of_def Let_def)

lemma members_project_entry_of:
  "members (project_entry_of ck cbi d puc project) =
     sort_by_name ck (map project_member_of (filter (\<lambda>pu. truthy (pu ''id''))
       (case puc (str_of (project ''id'')) of None \<Rightarrow> [] | Some pus \<Rightarrow> pus)))"
  by (simp add: project_entry_of_def Let_def)

lemma companies_project_entry_of:
  "companies (project_entry_of ck cbi d puc project) =
     sort_by_name ck (map (company_record_of cbi)
       (companyIdsForProject_of (str_of (project ''id'')) (object_entries d) []))"
  by (simp add: project_entry_of_def Let_def)

lemma uuid_company_record_of [simp]: "uuid (company_record_of cbi cid) = cid"
  by (simp add: company_record_of_def)

lemma set_object_entries [simp]: "set (object_entries d) = set d"
  by (auto simp: object_entries_def)

lemma set_companyIdsForProject_of:
  "set (companyIdsForProject_of pid es acc) =
     set acc \<union> {k. \<exists>s. (k, s) \<in> set es \<and> pid \<in> set s}"
  by (induction pid es acc rule: companyIdsForProject_of.induct) auto

lemma in_companiesCache:
  assumes "C \<in> set (companiesCache (assembled ck cs ubc ps d puc))"
  obtains company where "company \<in> set cs" "truthy (company ''id'')"
    "C = company_entry ck ubc (byId_of ps Map.empty) d puc company"
  using assms by (auto simp: assembled_def)

lemma in_projectsCache:
  assumes "P \<in> set (projectsCache (assembled ck cs ubc ps d puc))"
  obtains project where "project \<in> set ps" "truthy (project ''id'')"
    "P = project_entry_of ck (byId_of cs Map.empty) d puc project"
  using assms by (auto simp: assembled_def projectsResult_of_def)

lemma uuids_projects_company_entry:
  "uuid ` set (projects (company_entry ck ubc pbi d puc company)) =
     {pid. (str_of (company ''id''), pid) \<in> assoc_rel d}"
  by (cases "map_of d (str_of (company ''id''))")
     (auto simp: projects_company_entry assoc_rel_def image_image)

lemma uuids_companies_project_entry_of:
  assumes "distinct (map fst d)"
  shows "uuid ` set (companies (project_entry_of ck cbi d puc project)) =
     {cid. (cid, str_of (project ''id'')) \<in> assoc_rel d}"
  using assms
  by (auto simp: companies_project_entry_of assoc_rel_def image_image
        set_companyIdsForProject_of)

subsection \<open>The assembler returns the assembled caches or throws\<close>

lemma company_entry_of_cases:
  "company_entry_of ck ubc pbi d puc company =
     (if obj_get ubc (str_of (company ''id'')) = Inherited \<or>
         obj_get (map_of d) (str_of (company ''id'')) = Inherited
      then Inl TypeError
      else Inr (company_entry ck ubc pbi d puc company))"
  by (simp add: company_entry_of_def company_entry_def obj_get_def
        split: option.splits property.splits)

lemma company_entries_of_InrD:
  assumes "company_entries_of ck ubc pbi d puc cs = Inr entries"
  shows "entries = map (company_entry ck ubc pbi d puc) (filter (\<lambda>c. truthy (c ''id'')) cs)"
  using assms
proof (induction cs arbitrary: entries)
  case Nil
  then show ?case by simp
next
  case (Cons c cs)
  show ?case
  proof (cases "truthy (c ''id'')")
    case False
    with Cons show ?thesis by simp
  next
    case True
    with Cons.prems obtain rest where
      e: "company_entry_of ck ubc pbi d puc c = Inr (company_entry ck ubc pbi d puc c)"
      and r: "company_entries_of ck ubc pbi d puc cs = Inr rest"
      and es: "entries = company_entry ck ubc pbi d puc c # rest"
      by (auto simp: company_entry_of_cases split: sum.splits if_splits)
    from Cons.IH[OF r] es True show ?thesis by simp
  qed
qed

lemma company_entries_of_returns:
  assumes "\<forall>c \<in> set cs. plain_key (c ''id'')"
  shows "company_entries_of ck ubc pbi d puc cs =
     Inr (map (company_entry ck ubc pbi d puc) (filter (\<lambda>c. truthy (c ''id'')) cs))"
  using assms
proof (induction cs)
  case Nil
  then show ?case by simp
next
  case (Cons c cs)
  show ?case
  proof (cases "truthy (c ''id'')")
    case False
    with Cons show ?thesis by simp
  next
    case True
    with Cons.prems have "str_of (c ''id'') \<notin> set Object_prototype_keys"
      by (simp add: plain_key_def)
    then have "company_entry_of ck ubc pbi d puc c = Inr (company_entry ck ubc pbi d puc c)"
      by (simp add: company_entry_of_cases obj_get_Inherited)
    with Cons True show ?thesis by simp
  qed
qed

lemma assemble_InrD:
  assumes "assemble ck cs ubc ps d puc = Inr res"
  shows "res = assembled ck cs ubc ps d puc"
proof -
  from assms obtain entries where
    e: "company_entries_of ck ubc (byId_of ps Map.empty) d puc cs = Inr entries"
    and res: "res = \<lparr>companiesCache = sort_by_name ck entries,
                      projectsCache = projectsResult_of ck ps (byId_of cs Map.empty) d puc\<rparr>"
    by (auto simp: assemble_def companiesResult_of_def split: sum.splits)
  from company_entries_of_InrD[OF e] res show ?thesis
    by (simp add: assembled_def)
qed

lemma assemble_returns:
  assumes "\<forall>c \<in> set cs. plain_key (c ''id'')"
  shows "assemble ck cs ubc ps d puc = Inr (assembled ck cs ubc ps d puc)"
  by (simp add: assemble_def companiesResult_of_def assembled_def
        company_entries_of_returns[OF assms])

lemma buildCompaniesCache_SomeD:
  assumes "buildCompaniesCache ck net = Some (Inr res)"
  obtains cs us ps ubc d puc where
    "CompaniesAPI_fetchAll (companies_srv net) = Some (Inr cs)"
    "UsersAPI_fetchAll (users_srv net) = Some (Inr us)"
    "ProjectsAPI_fetchAll (projects_srv net) = Some (Inr ps)"
    "usersByCompany_of us Map.empty = Inr ubc"
    "map_projects net ps [] Map.empty = Some (Inr (d, puc))"
    "res = assembled ck cs ubc ps d puc"
proof -
  from assms obtain cs us ps ubc d puc where
    f: "CompaniesAPI_fetchAll (companies_srv net) = Some (Inr cs)"
       "UsersAPI_fetchAll (users_srv net) = Some (Inr us)"
       "ProjectsAPI_fetchAll (projects_srv net) = Some (Inr ps)"
       "usersByCompany_of us Map.empty = Inr ubc"
       "map_projects net ps [] Map.empty = Some (Inr (d, puc))"
    and a: "assemble ck cs ubc ps d puc = Inr res"
    unfolding buildCompaniesCache_def
    by (auto split: option.splits sum.splits)
  from f assemble_InrD[OF a] that show ?thesis by blast
qed

section \<open>The example account, built\<close>

lemma example_build: "buildCompaniesCache code_unit_key example_net = Some (Inr example_caches)"
  by code_simp

lemma tie_build: "buildCompaniesCache code_unit_key tie_net = Some (Inr tie_caches)"
  by code_simp

lemma partial_build: "buildCompaniesCache code_unit_key partial_net = Some (Inr partial_caches)"
  by code_simp

lemma example_fetches:
  "CompaniesAPI_fetchAll (companies_srv example_net) = Some (Inr example_companies)"
  "UsersAPI_fetchAll (users_srv example_net) = Some (Inr example_users)"
  "ProjectsAPI_fetchAll (projects_srv example_net) = Some (Inr example_projects)"
proof -
  have len: "length example_companies = 3" "length example_users = 2"
    "length example_projects = 2"
    by (simp_all add: example_companies_def example_users_def example_projects_def)
  show "CompaniesAPI_fetchAll (companies_srv example_net) = Some (Inr example_companies)"
    unfolding CompaniesAPI_fetchAll_def CompaniesAPI_fetchAll_run_def
    by (subst fetchAll_loop.simps)
       (simp add: example_net_def first_page_def whole_payload_def len)
  show "UsersAPI_fetchAll (users_srv example_net) = Some (Inr example_users)"
    unfolding UsersAPI_fetchAll_def UsersAPI_fetchAll_run_def
    by (subst fetchAll_loop.simps)
       (simp add: example_net_def first_page_def whole_payload_def len)
  show "ProjectsAPI_fetchAll (projects_srv example_net) = Some (Inr example_projects)"
    unfolding ProjectsAPI_fetchAll_def ProjectsAPI_fetchAll_run_def
    by (subst fetchAll_loop.simps)
       (simp add: example_net_def first_page_def results_or_payload_def len)
qed

lemma example_project_fetches:
  "fetchProjectCompanies (project_companies_srv example_net ''p1'') = Some example_p1_companies"
  "fetchProjectUsers (project_users_srv example_net ''p1'') = Some example_users"
  "fetchProjectCompanies (project_companies_srv example_net ''p2'') = Some []"
  "fetchProjectUsers (project_users_srv example_net ''p2'') = Some []"
proof -
  have len: "length example_p1_companies = 2" "length example_users = 2"
    by (simp_all add: example_p1_companies_def example_users_def)
  show "fetchProjectCompanies (project_companies_srv example_net ''p1'') =
      Some example_p1_companies"
    unfolding fetchProjectCompanies_def fetchProjectCompanies_run_def
    by (subst fetchProjectCompanies_loop.simps)
       (simp add: example_net_def first_page_def len)
  show "fetchProjectUsers (project_users_srv example_net ''p1'') = Some example_users"
    unfolding fetchProjectUsers_def fetchProjectUsers_run_def
    by (subst fetchProjectUsers_loop.simps)
       (simp add: example_net_def first_page_def len)
  show "fetchProjectCompanies (project_companies_srv example_net ''p2'') = Some []"
    unfolding fetchProjectCompanies_def fetchProjectCompanies_run_def
    by (subst fetchProjectCompanies_loop.simps) (simp add: example_net_def)
  show "fetchProjectUsers (project_users_srv example_net ''p2'') = Some []"
    unfolding fetchProjectUsers_def fetchProjectUsers_run_def
    by (subst fetchProjectUsers_loop.simps) (simp add: example_net_def)
qed

lemma example_project_ids: "project_ids example_projects = [''p1'', ''p2'']"
  by (simp add: project_ids_def example_projects_def truthy_def str_of_def)

lemma dup_build: "buildCompaniesCache code_unit_key dup_net = Some (Inr dup_caches)"
  by code_simp

lemma dup_fetch: "fetchProjectUsers (project_users_srv dup_net ''p1'') = Some dup_roster"
proof -
  have len: "length dup_roster = 2" by (simp add: dup_roster_def)
  show ?thesis
    unfolding fetchProjectUsers_def fetchProjectUsers_run_def
    by (subst fetchProjectUsers_loop.simps) (simp add: dup_net_def first_page_def len)
qed

lemma inherited_key_throws:
  "buildCompaniesCache code_unit_key inherited_net = Some (Inl TypeError)"
  by code_simp

section \<open>Embedded members\<close>

lemma truthy_SomeD: "truthy v \<Longrightarrow> v = Some (str_of v) \<and> str_of v \<noteq> []"
  by (cases v) (simp_all add: truthy_def str_of_def)

lemma or_empty_eq_truthy:
  assumes "truthy v"
  shows "or_empty w = str_of v \<longleftrightarrow> w = v"
proof -
  from assms obtain s where v: "v = Some s" "s \<noteq> []"
    by (cases v) (simp_all add: truthy_def)
  show ?thesis
    by (cases w) (auto simp: v or_empty_def js_or_def truthy_def str_of_def)
qed

lemma without_companyId_project_member_of [simp]:
  "without_companyId (project_member_of pu) = member_of pu"
  by (simp add: without_companyId_def project_member_of_def member_of_def)

lemma name_without_companyId [simp]: "name (without_companyId m) = name m"
  by (simp add: without_companyId_def)

lemma companyId_project_member_of [simp]:
  "companyId (project_member_of pu) = or_empty (pu ''companyId'')"
  by (simp add: project_member_of_def)

lemma embedded_members_as_filter:
  assumes "truthy (company ''id'')"
  shows "map without_companyId
           (filter (\<lambda>m. companyId m = str_of (company ''id''))
              (sort_by_name ck (map project_member_of (filter (\<lambda>pu. truthy (pu ''id'')) roster)))) =
         sort_by_name ck (map member_of
           (filter (\<lambda>pu. pu ''companyId'' = company ''id'' \<and> truthy (pu ''id'')) roster))"
proof -
  have "map without_companyId
          (filter (\<lambda>m. companyId m = str_of (company ''id''))
             (map project_member_of (filter (\<lambda>pu. truthy (pu ''id'')) roster))) =
        map member_of
          (filter (\<lambda>pu. pu ''companyId'' = company ''id'' \<and> truthy (pu ''id'')) roster)"
    by (induction roster) (auto simp: or_empty_eq_truthy[OF assms])
  then show ?thesis
    by (simp add: filter_sort_by_name map_sort_by_name)
qed

lemma assoc_rel_project_ids:
  assumes "map_projects net ps [] Map.empty = Some (Inr (d, puc))" and "(cid, pid) \<in> assoc_rel d"
  shows "pid \<in> set (project_ids ps)"
  using map_projects_assoc[OF assms(1)] assms(2) by auto

lemma project_record_in_company:
  assumes "P \<in> set (projects (company_entry ck ubc pbi d puc company))"
  shows "P = project_record_of ck pbi puc company (uuid P) \<and>
         (str_of (company ''id''), uuid P) \<in> assoc_rel d"
proof -
  from assms obtain pid where
    pid: "pid \<in> set (case map_of d (str_of (company ''id'')) of None \<Rightarrow> [] | Some pids \<Rightarrow> sort pids)"
    and P: "P = project_record_of ck pbi puc company pid"
    by (auto simp: projects_company_entry)
  from pid have "(str_of (company ''id''), pid) \<in> assoc_rel d"
    by (cases "map_of d (str_of (company ''id''))") (auto simp: assoc_rel_def)
  with P show ?thesis by simp
qed

lemma project_entry_exists:
  assumes "pid \<in> set (project_ids ps)"
  shows "\<exists>PE \<in> set (projectsCache (assembled ck cs ubc ps d puc)). uuid PE = pid"
proof -
  from assms obtain p where "p \<in> set ps" "truthy (p ''id'')" "str_of (p ''id'') = pid"
    by (auto simp: project_ids_def)
  then show ?thesis
    by (auto simp: assembled_def projectsResult_of_def intro!: bexI[of _ p])
qed

lemma count_list_map_filter_inj:
  assumes "Q x" and "\<And>y. Q y \<Longrightarrow> f y = f x \<Longrightarrow> y = x"
  shows "count_list (map f (filter Q xs)) (f x) = count_list xs x"
  using assms by (induction xs) auto

section \<open>Failing per-project fetches\<close>

lemma full_pages_Nil [simp]: "full_pages limit batch_of srv []"
  by (simp add: full_pages_def)

lemma users_pages_Nil [simp]: "users_pages srv []"
  by (simp add: users_pages_def)

lemma companies_fetch_fails_empty:
  assumes "companies_fetch_fails srv"
  shows "fetchProjectCompanies srv = Some []"
proof -
  from assms consider
    (notok) status body where "srv 0 = NotOk status body"
    | (thrown) pages where "full_pages 100 whole_payload srv pages"
        "srv (length pages * 100) = Rejected \<or> srv (length pages * 100) = OkBadJson"
    unfolding companies_fetch_fails_def by blast
  then show ?thesis
  proof cases
    case notok
    then have "fetchProjectCompanies_run srv = Some ([0], [])"
      unfolding fetchProjectCompanies_run_def
      by (subst fetchProjectCompanies_loop.simps) simp
    then show ?thesis by (simp add: fetchProjectCompanies_def)
  next
    case thrown
    from project_companies_contract_holds thrown
    have "fetchProjectCompanies_run srv = Some (page_offsets 100 (length pages), [])"
      unfolding project_companies_contract_def Let_def by blast
    then show ?thesis by (simp add: fetchProjectCompanies_def)
  qed
qed

lemma members_fetch_fails_empty:
  assumes "members_fetch_fails srv"
  shows "fetchProjectUsers srv = Some []"
proof -
  have "fetchProjectUsers_run srv = Some ([0], [])"
    unfolding fetchProjectUsers_run_def
    using assms
    by (subst fetchProjectUsers_loop.simps) (auto simp: members_fetch_fails_def)
  then show ?thesis by (simp add: fetchProjectUsers_def)
qed

lemma build_returns:
  assumes "CompaniesAPI_fetchAll (companies_srv net) = Some (Inr cs)"
    and "UsersAPI_fetchAll (users_srv net) = Some (Inr us)"
    and "ProjectsAPI_fetchAll (projects_srv net) = Some (Inr ps)"
    and "\<forall>pid \<in> set (project_ids ps).
           fetchProjectCompanies (project_companies_srv net pid) \<noteq> None \<and>
           fetchProjectUsers (project_users_srv net pid) \<noteq> None"
    and "\<forall>c \<in> set cs. plain_key (c ''id'')"
    and "\<forall>u \<in> set us. plain_key (js_or (u ''company_id'') (u ''companyId''))"
    and "\<forall>pid \<in> set (project_ids ps). \<forall>pc.
           fetchProjectCompanies (project_companies_srv net pid) = Some pc \<longrightarrow>
           (\<forall>c \<in> set pc. plain_key (c ''id''))"
  obtains ubc d puc where "map_projects net ps [] Map.empty = Some (Inr (d, puc))"
    "buildCompaniesCache ck net = Some (Inr (assembled ck cs ubc ps d puc))"
proof -
  from usersByCompany_of_returns[OF assms(6), of Map.empty]
  obtain ubc where u: "usersByCompany_of us Map.empty = Inr ubc" by blast
  from map_projects_returns[OF assms(4,7), of "[]" Map.empty]
  obtain d puc where m: "map_projects net ps [] Map.empty = Some (Inr (d, puc))" by blast
  from assms(1-3) u m
  have "buildCompaniesCache ck net = Some (Inr (assembled ck cs ubc ps d puc))"
    by (simp add: buildCompaniesCache_def assemble_returns[OF assms(5)])
  with m that show ?thesis by blast
qed

lemma no_companies_no_assoc:
  assumes "map_projects net ps [] Map.empty = Some (Inr (d, puc))"
    and "fetchProjectCompanies (project_companies_srv net pid) = Some []"
  shows "(cid, pid) \<notin> assoc_rel d"
  using map_projects_assoc[OF assms(1)] assms(2) by auto

section \<open>Ties in the sorted lists\<close>

lemma name_key_company_entry [simp]:
  "name_key ck (company_entry ck' ubc pbi d puc company) =
     ck (toLowerCase (or_empty (company ''name'')))"
  by (simp add: name_key_def)

lemma name_key_project_entry_of [simp]:
  "name_key ck (project_entry_of ck' cbi d puc project) =
     ck (toLowerCase (or_empty (project ''name'')))"
  by (simp add: name_key_def)

lemma name_key_member_of [simp]:
  "name_key ck (member_of u) = ck (toLowerCase (displayUserName u))"
  by (simp add: name_key_def member_of_def)

lemma name_key_project_member_of [simp]:
  "name_key ck (project_member_of u) = ck (toLowerCase (displayUserName u))"
  by (simp add: name_key_def project_member_of_def)

lemma uuid_member_of [simp]: "uuid (member_of u) = str_of (u ''id'')"
  by (simp add: member_of_def)

lemma uuid_project_member_of [simp]: "uuid (project_member_of u) = str_of (u ''id'')"
  by (simp add: project_member_of_def)

lemma uuids_of_ties:
  "map uuid (filter (\<lambda>r. name_key ck r = k) (sort_by_name ck (map f xs))) =
   map (\<lambda>x. uuid (f x)) (filter (\<lambda>x. name_key ck (f x) = k) xs)"
  by (simp add: sort_by_name_stable filter_map comp_def)

lemma sorted_filter_sort: "sorted (filter P (sort (xs :: 'a::linorder list)))"
  using sorted_filter[of "\<lambda>x. x" "sort xs" P] by simp

lemma project_ties_sorted:
  "sorted (map uuid (filter (\<lambda>r. name_key ck r = k)
     (projects (company_entry ck ubc pbi d puc company))))"
proof -
  have "map uuid (filter (\<lambda>r. name_key ck r = k)
     (projects (company_entry ck ubc pbi d puc company))) =
     filter (\<lambda>pid. name_key ck (project_record_of ck pbi puc company pid) = k)
       (case map_of d (str_of (company ''id'')) of None \<Rightarrow> [] | Some pids \<Rightarrow> sort pids)"
    by (simp add: projects_company_entry uuids_of_ties)
  then show ?thesis
    by (cases "map_of d (str_of (company ''id''))") (simp_all add: sorted_filter_sort)
qed

lemma distinct_object_entries:
  "distinct (map fst d) \<Longrightarrow> distinct (map fst (object_entries d))"
  by (auto simp: object_entries_def distinct_map_filter distinct_map inj_on_def
        intro!: distinct_filter)

lemma companyIdsForProject_of_filter:
  assumes "distinct (map fst es)" and "distinct acc" and "set acc \<inter> fst ` set es = {}"
  shows "companyIdsForProject_of pid es acc =
           acc @ map fst (filter (\<lambda>e. pid \<in> set (snd e)) es)"
  using assms
proof (induction pid es acc rule: companyIdsForProject_of.induct)
  case (1 pid acc)
  then show ?case by simp
next
  case (2 pid compId pidSet rest acc)
  show ?case
  proof (cases "pid \<in> set pidSet")
    case True
    from "2.prems" have "compId \<notin> set acc" by auto
    then have sa: "set_add compId acc = acc @ [compId]" by (simp add: set_add_def)
    from "2.prems" have "distinct (map fst rest)" "distinct (acc @ [compId])"
      "set (acc @ [compId]) \<inter> fst ` set rest = {}" by auto
    with "2.IH"(1)[OF True] sa True show ?thesis by simp
  next
    case False
    from "2.prems" have "distinct (map fst rest)" "distinct acc"
      "set acc \<inter> fst ` set rest = {}" by auto
    with "2.IH"(2)[OF False] False show ?thesis by simp
  qed
qed

lemma company_ties_follow_index:
  assumes "distinct (map fst d)"
  shows "map uuid (filter (\<lambda>r. name_key ck r = k)
           (companies (project_entry_of ck cbi d puc project))) =
         filter (\<lambda>cid. cid \<in> uuid ` set (filter (\<lambda>r. name_key ck r = k)
                     (companies (project_entry_of ck cbi d puc project))))
           (map fst (object_entries d))"
proof -
  let ?pid = "str_of (project ''id'')"
  let ?ids = "map fst (filter (\<lambda>e. ?pid \<in> set (snd e)) (object_entries d))"
  let ?Q = "\<lambda>cid. name_key ck (company_record_of cbi cid) = k"
  have ids: "companyIdsForProject_of ?pid (object_entries d) [] = ?ids"
    using companyIdsForProject_of_filter[OF distinct_object_entries[OF assms], of "[]" ?pid]
    by simp
  have comp: "companies (project_entry_of ck cbi d puc project) =
      sort_by_name ck (map (company_record_of cbi) ?ids)"
    by (simp add: companies_project_entry_of ids)
  have l: "map uuid (filter (\<lambda>r. name_key ck r = k)
           (companies (project_entry_of ck cbi d puc project))) = filter ?Q ?ids"
    unfolding comp uuids_of_ties by simp
  have s: "uuid ` set (filter (\<lambda>r. name_key ck r = k)
                     (companies (project_entry_of ck cbi d puc project))) = set (filter ?Q ?ids)"
    using l by (metis set_map)
  have "filter (\<lambda>cid. cid \<in> set (filter ?Q ?ids)) (map fst (object_entries d)) = filter ?Q ?ids"
    by (auto simp: filter_map comp_def dest: eq_key_imp_eq_value[OF assms]
          intro!: arg_cong[where f = "map fst"] filter_cong)
  with l s show ?thesis by simp
qed

lemma name_sorted_sort_by_name [simp]: "name_sorted ck (sort_by_name ck rs)"
  by (simp add: name_sorted_def sorted_sort_by_name)

lemma three_names_sorted:
  fixes ck :: "string \<Rightarrow> 'k::linorder"
  assumes "map name rs = [''bravo'', ''Alpha'', ''charlie'']"
    and "ck ''alpha'' < ck ''bravo''" and "ck ''bravo'' < ck ''charlie''"
  shows "map name (sort_by_name ck rs) = [''Alpha'', ''bravo'', ''charlie'']"
proof -
  from assms(1) obtain a b c where rs: "rs = [a, b, c]"
    and n: "name a = ''bravo''" "name b = ''Alpha''" "name c = ''charlie''"
    by (auto simp: map_eq_Cons_conv)
  have lc: "toLowerCase ''bravo'' = ''bravo''" "toLowerCase ''Alpha'' = ''alpha''"
    "toLowerCase ''charlie'' = ''charlie''"
    by code_simp+
  have k: "name_key ck a = ck ''bravo''" "name_key ck b = ck ''alpha''"
    "name_key ck c = ck ''charlie''"
    by (simp_all add: name_key_def n lc)
  from assms(2,3) have "ck ''alpha'' < ck ''charlie''" by simp
  with assms(2,3) k have "sort_by_name ck rs = [b, a, c]"
    by (simp add: rs sort_by_name_def not_le less_imp_le)
  with n show ?thesis by simp
qed

section \<open>Company rosters and raw project rosters\<close>

lemma usersByCompany_of_lookup:
  assumes "usersByCompany_of us m = Inr ubc" and "cid \<noteq> []"
  shows "ubc cid =
     (let new = filter (\<lambda>u. js_or (u ''company_id'') (u ''companyId'') = Some cid) us
      in if new = [] then m cid
         else Some ((case m cid of None \<Rightarrow> [] | Some l \<Rightarrow> l) @ new))"
  using assms(1)
proof (induction us arbitrary: m)
  case Nil
  then show ?case by simp
next
  case (Cons u us)
  let ?k = "js_or (u ''company_id'') (u ''companyId'')"
  show ?case
  proof (cases "truthy ?k")
    case nt: False
    with Cons.prems have "usersByCompany_of us m = Inr ubc"
      by (simp add: usersByCompany_of_Cons Let_def del: usersByCompany_of.simps)
    from Cons.IH[OF this] nt assms(2) show ?thesis
      by (auto simp: Let_def truthy_def)
  next
    case True
    with Cons.prems have r: "usersByCompany_of us
        (m(str_of ?k \<mapsto> (case m (str_of ?k) of None \<Rightarrow> [] | Some l \<Rightarrow> l) @ [u])) = Inr ubc"
      by (simp add: usersByCompany_of_Cons Let_def del: usersByCompany_of.simps
            split: if_splits)
    note ih = Cons.IH[OF r]
    show ?thesis
    proof (cases "?k = Some cid")
      case eq: True
      then have "str_of ?k = cid" by (simp add: str_of_def)
      with ih eq show ?thesis by (simp add: Let_def)
    next
      case ne: False
      with True have "str_of ?k \<noteq> cid" using truthy_SomeD by fastforce
      with ih ne show ?thesis by (simp add: Let_def)
    qed
  qed
qed

lemma usersByCompany_of_empty:
  assumes "usersByCompany_of us Map.empty = Inr ubc" and "cid \<noteq> []"
  shows "(case ubc cid of None \<Rightarrow> [] | Some l \<Rightarrow> l) =
     filter (\<lambda>u. js_or (u ''company_id'') (u ''companyId'') = Some cid) us"
  by (simp add: usersByCompany_of_lookup[OF assms] Let_def)

lemma users_in_company:
  assumes "usersByCompany_of us Map.empty = Inr ubc" and "truthy (company ''id'')"
  shows "users (company_entry ck ubc pbi d puc company) =
     sort_by_name ck (map member_of
       (filter (\<lambda>u. truthy (u ''id'') \<and>
                     js_or (u ''company_id'') (u ''companyId'') = Some (str_of (company ''id''))) us))"
proof -
  from assms(2) have ne: "str_of (company ''id'') \<noteq> []" using truthy_SomeD by blast
  show ?thesis
    unfolding users_company_entry usersByCompany_of_empty[OF assms(1) ne]
    by (simp add: conj_commute)
qed

lemma embedded_members_raw:
  assumes "buildCompaniesCache ck net = Some (Inr res)"
    and "C \<in> set (companiesCache res)" and "P \<in> set (projects C)"
  shows "\<exists>roster. fetchProjectUsers (project_users_srv net (uuid P)) = Some roster \<and>
           members P = sort_by_name ck (map member_of
             (filter (\<lambda>pu. pu ''companyId'' = Some (uuid C) \<and> truthy (pu ''id'')) roster))"
proof -
  from assms(1) obtain cs us ps ubc d puc where
    m: "map_projects net ps [] Map.empty = Some (Inr (d, puc))"
    and res: "res = assembled ck cs ubc ps d puc"
    by (rule buildCompaniesCache_SomeD)
  from assms(2) res obtain company where tc: "truthy (company ''id'')" and
    C: "C = company_entry ck ubc (byId_of ps Map.empty) d puc company"
    by (auto elim: in_companiesCache)
  from assms(3) C have P: "P = project_record_of ck (byId_of ps Map.empty) puc company (uuid P)"
    and rel: "(str_of (company ''id''), uuid P) \<in> assoc_rel d"
    using project_record_in_company by blast+
  have pid: "uuid P \<in> set (project_ids ps)" by (rule assoc_rel_project_ids[OF m rel])
  with map_projects_fetches[OF m] obtain roster where
    r: "fetchProjectUsers (project_users_srv net (uuid P)) = Some roster" by blast
  with map_projects_users[OF m, of "uuid P"] pid have puc: "puc (uuid P) = Some roster" by simp
  have cid: "company ''id'' = Some (uuid C)" using truthy_SomeD[OF tc] C by simp
  have "members P = embedded_members ck puc company (uuid P)"
    by (subst P) simp
  with puc cid r show ?thesis by (simp add: embedded_members_def)
qed

section \<open>The pagination contract (C5)\<close>

text \<open>
  C5, as stated, has every per-project fetcher return what it collected so far when a
  request throws.  \<open>fetchProjectCompanies\<close> does not: its \<open>catch\<close> returns \<open>[]\<close>.  When
  the first request is answered by a full page of 100 companies and the second request is
  rejected, the fetcher returns the empty list and not the 100 companies collected.
\<close>

theorem fetchProjectCompanies_rejection_drops_pages:
  "one_page_then (0::nat) Rejected 0 = OkJson (PArr (replicate 100 0)) \<and>
   one_page_then (0::nat) Rejected 100 = Rejected \<and>
   fetchProjectCompanies (one_page_then (0::nat) Rejected) = Some [] \<and>
   fetchProjectCompanies (one_page_then (0::nat) Rejected) \<noteq> Some (replicate 100 0)"
proof -
  have fp: "full_pages 100 whole_payload (one_page_then (0::nat) Rejected) [replicate 100 0]"
    by (simp add: full_pages_def one_page_then_def whole_payload_def)
  have at: "one_page_then (0::nat) Rejected (length [replicate 100 (0::nat)] * 100) = Rejected"
    by (simp add: one_page_then_def)
  have "fetchProjectCompanies_run (one_page_then (0::nat) Rejected) =
          Some (page_offsets 100 (length [replicate 100 (0::nat)]), [])"
    by (rule project_companies_contract_RejectedD
          [OF project_companies_contract_holds fp at])
  then show ?thesis
    by (simp add: fetchProjectCompanies_def one_page_then_def)
qed

text \<open>
  C5, amended.  Every account-level fetcher (\<open>CompaniesAPI.fetchAll\<close> and
  \<open>UsersAPI.fetchAll\<close> with limit 100, \<open>ProjectsAPI.fetchAll\<close> with limit 200) requests
  pages at the offsets \<open>0, limit, 2 * limit, \<dots>\<close>, concatenates the pages in request order,
  stops at the first page with fewer items than the limit (or none, or no array), and on a
  response that is not a success throws an error carrying the status code and the body.
  \<open>fetchProjectUsers\<close>, on a response that is not a success or a thrown error, ends the
  loop and returns what it collected so far.  \<open>fetchProjectCompanies\<close> returns what it
  collected so far on a response that is not a success, and \<open>[]\<close> on a thrown error.
  In every case listed the fetcher returns: the loop ends.
\<close>

theorem pagination_contract:
  "account_contract CompaniesAPI_fetchAll_run ''companies'' 100 whole_payload \<and>
   account_contract UsersAPI_fetchAll_run ''users'' 100 whole_payload \<and>
   account_contract ProjectsAPI_fetchAll_run ''projects'' 200 results_or_payload \<and>
   project_companies_contract fetchProjectCompanies_run \<and>
   project_users_contract fetchProjectUsers_run"
proof -
  have "account_contract CompaniesAPI_fetchAll_run ''companies'' 100 whole_payload"
    using account_contract_fetchAll_loop[of 100 "''companies''" whole_payload]
    by (simp add: CompaniesAPI_fetchAll_run_def[abs_def])
  moreover have "account_contract UsersAPI_fetchAll_run ''users'' 100 whole_payload"
    using account_contract_fetchAll_loop[of 100 "''users''" whole_payload]
    by (simp add: UsersAPI_fetchAll_run_def[abs_def])
  moreover have "account_contract ProjectsAPI_fetchAll_run ''projects'' 200 results_or_payload"
    using account_contract_fetchAll_loop[of 200 "''projects''" results_or_payload]
    by (simp add: ProjectsAPI_fetchAll_run_def[abs_def])
  ultimately show ?thesis
    using project_companies_contract_holds project_users_contract_holds by blast
qed

theorem pagination_contract_witness:
  "full_pages 100 whole_payload (one_page_then (0::nat) (NotOk 503 (Some ''busy'')))
     [replicate 100 0] \<and>
   CompaniesAPI_fetchAll_run (one_page_then (0::nat) (NotOk 503 (Some ''busy''))) =
     Some ([0, 100], Inl (ApiError ''companies'' 503 ''busy'')) \<and>
   fetchProjectCompanies_run (one_page_then (0::nat) (NotOk 503 (Some ''busy''))) =
     Some ([0, 100], replicate 100 0) \<and>
   users_pages (one_results_page_then (0::nat) Rejected) [replicate 100 0] \<and>
   fetchProjectUsers_run (one_results_page_then (0::nat) Rejected) =
     Some ([0, 100], replicate 100 0)"
proof -
  let ?srv = "one_page_then (0::nat) (NotOk 503 (Some ''busy''))"
  let ?usrv = "one_results_page_then (0::nat) Rejected"
  let ?pages = "[replicate 100 (0::nat)]"
  have fp: "full_pages 100 whole_payload ?srv ?pages"
    by (simp add: full_pages_def one_page_then_def whole_payload_def)
  have up: "users_pages ?usrv ?pages"
    by (simp add: users_pages_def one_results_page_then_def)
  have offs: "page_offsets 100 (Suc 0) = [0, 100]" "users_offsets ?pages = [0, 100]"
    by (simp_all add: page_offsets_def users_offsets_def)
  have at: "?srv (length ?pages * 100) = NotOk 503 (Some ''busy'')"
    "?usrv (length (concat ?pages)) = Rejected"
    by (simp_all add: one_page_then_def one_results_page_then_def)
  note c = pagination_contract[where 'a = nat and 'd = nat and 'e = nat]
  have 1: "CompaniesAPI_fetchAll_run ?srv =
      Some ([0, 100], Inl (ApiError ''companies'' 503 ''busy''))"
    using account_contract_NotOkD[OF c[THEN conjunct1] fp at(1)] by (simp add: offs)
  have 2: "fetchProjectCompanies_run ?srv = Some ([0, 100], replicate 100 0)"
    using project_companies_contract_NotOkD
            [OF c[THEN conjunct2, THEN conjunct2, THEN conjunct2, THEN conjunct1] fp at(1)]
    by (simp add: offs)
  have 3: "fetchProjectUsers_run ?usrv = Some ([0, 100], replicate 100 0)"
    using project_users_contract_RejectedD
            [OF c[THEN conjunct2, THEN conjunct2, THEN conjunct2, THEN conjunct2] up at(2)]
    by (simp add: offs)
  from fp up 1 2 3 show ?thesis by blast
qed

section \<open>Reverse-index agreement (C1)\<close>

text \<open>
  C1.  For every run of \<open>buildCompaniesCache\<close> that returns a cache pair, every company
  entry \<open>C\<close> of the returned \<open>companiesCache\<close> and every project entry \<open>P\<close> of the returned
  \<open>projectsCache\<close>: \<open>P.uuid\<close> is among the uuids of \<open>C.projects\<close> if and only if \<open>C.uuid\<close>
  is among the uuids of \<open>P.companies\<close>.
\<close>

theorem reverse_index_agreement:
  assumes "buildCompaniesCache ck net = Some (Inr res)"
    and "C \<in> set (companiesCache res)" and "P \<in> set (projectsCache res)"
  shows "uuid P \<in> uuid ` set (projects C) \<longleftrightarrow> uuid C \<in> uuid ` set (companies P)"
proof -
  from assms(1) obtain cs us ps ubc d puc where
    m: "map_projects net ps [] Map.empty = Some (Inr (d, puc))"
    and res: "res = assembled ck cs ubc ps d puc"
    by (rule buildCompaniesCache_SomeD)
  from m have dist: "distinct (map fst d)"
    by (rule map_projects_distinct) simp
  from assms(2) res obtain company where
    C: "C = company_entry ck ubc (byId_of ps Map.empty) d puc company"
    by (auto elim: in_companiesCache)
  from assms(3) res obtain project where
    P: "P = project_entry_of ck (byId_of cs Map.empty) d puc project"
    by (auto elim: in_projectsCache)
  show ?thesis
    unfolding C P uuids_projects_company_entry uuids_companies_project_entry_of[OF dist]
    by simp
qed

theorem reverse_index_agreement_witness:
  "buildCompaniesCache code_unit_key example_net = Some (Inr example_caches) \<and>
   companiesCache example_caches ! 1 \<in> set (companiesCache example_caches) \<and>
   companiesCache example_caches ! 2 \<in> set (companiesCache example_caches) \<and>
   projectsCache example_caches ! 1 \<in> set (projectsCache example_caches) \<and>
   uuid (projectsCache example_caches ! 1) \<in>
     uuid ` set (projects (companiesCache example_caches ! 1)) \<and>
   uuid (companiesCache example_caches ! 1) \<in>
     uuid ` set (companies (projectsCache example_caches ! 1)) \<and>
   uuid (projectsCache example_caches ! 1) \<notin>
     uuid ` set (projects (companiesCache example_caches ! 2)) \<and>
   uuid (companiesCache example_caches ! 2) \<notin>
     uuid ` set (companies (projectsCache example_caches ! 1))"
proof -
  have c1: "companiesCache example_caches ! 1 \<in> set (companiesCache example_caches)"
    and c2: "companiesCache example_caches ! 2 \<in> set (companiesCache example_caches)"
    and p1: "projectsCache example_caches ! 1 \<in> set (projectsCache example_caches)"
    by (simp_all add: example_caches_def)
  have l: "uuid (projectsCache example_caches ! 1) \<in>
     uuid ` set (projects (companiesCache example_caches ! 1))"
    and n: "uuid (projectsCache example_caches ! 1) \<notin>
     uuid ` set (projects (companiesCache example_caches ! 2))"
    by (simp_all add: example_caches_def)
  from reverse_index_agreement[OF example_build c1 p1] reverse_index_agreement[OF example_build c2 p1]
    example_build c1 c2 p1 l n
  show ?thesis by blast
qed

section \<open>Member intersection (C6)\<close>

text \<open>
  C6, as stated, has every roster member of the company embedded exactly once.  The
  embedded list is a filter of the fetched roster and nothing removes duplicates: a member
  that the roster lists twice is embedded twice.
\<close>

theorem listed_twice_embedded_twice:
  "fetchProjectUsers (project_users_srv dup_net ''p1'') = Some dup_roster \<and>
   (dup_roster ! 0) ''companyId'' = Some ''c1'' \<and>
   buildCompaniesCache code_unit_key dup_net = Some (Inr dup_caches) \<and>
   uuid (companiesCache dup_caches ! 0) = ''c1'' \<and>
   uuid (projects (companiesCache dup_caches ! 0) ! 0) = ''p1'' \<and>
   member_of (dup_roster ! 0) = \<lparr>name = ''Jo'', uuid = ''u1'', email = []\<rparr> \<and>
   count_list (members (projects (companiesCache dup_caches ! 0) ! 0))
     \<lparr>name = ''Jo'', uuid = ''u1'', email = []\<rparr> = 2"
proof -
  have m: "member_of (dup_roster ! 0) = \<lparr>name = ''Jo'', uuid = ''u1'', email = []\<rparr>"
    by (simp add: dup_roster_def member_of_def displayUserName_def trim_def is_ws_def
          or_empty_def js_or_def truthy_def str_of_def)
  from dup_fetch dup_build m show ?thesis
    by (simp add: dup_caches_def dup_roster_def)
qed

text \<open>
  C6, amended.  For every company \<open>C\<close> of the built \<open>companiesCache\<close> and every project
  record \<open>P\<close> listed under \<open>C\<close>, the project has an entry in \<open>projectsCache\<close>, whose
  \<open>members\<close> are the project's full roster (the fetched records with an id), and against
  every such entry \<open>PE\<close>: the members embedded in \<open>P\<close> are exactly the roster members whose
  \<open>companyId\<close> is \<open>C.uuid\<close>, in roster order and without their \<open>companyId\<close>.  So every
  embedded member comes from a roster record with that \<open>companyId\<close>, and every roster member
  with that \<open>companyId\<close> is embedded as often as the roster lists it: exactly once for a
  member the roster lists once.
\<close>

theorem member_intersection:
  assumes "buildCompaniesCache ck net = Some (Inr res)"
    and "C \<in> set (companiesCache res)" and "P \<in> set (projects C)"
  shows "(\<exists>PE \<in> set (projectsCache res). uuid PE = uuid P) \<and>
         (\<forall>PE \<in> set (projectsCache res). uuid PE = uuid P \<longrightarrow>
            members P = map without_companyId (filter (\<lambda>m. companyId m = uuid C) (members PE)) \<and>
            (\<forall>m \<in> set (members PE). companyId m = uuid C \<longrightarrow>
               count_list (members P) (without_companyId m) = count_list (members PE) m))"
proof -
  from assms(1) obtain cs us ps ubc d puc where
    m: "map_projects net ps [] Map.empty = Some (Inr (d, puc))"
    and res: "res = assembled ck cs ubc ps d puc"
    by (rule buildCompaniesCache_SomeD)
  from assms(2) res obtain company where tc: "truthy (company ''id'')" and
    C: "C = company_entry ck ubc (byId_of ps Map.empty) d puc company"
    by (auto elim: in_companiesCache)
  from assms(3) C have P: "P = project_record_of ck (byId_of ps Map.empty) puc company (uuid P)"
    and rel: "(str_of (company ''id''), uuid P) \<in> assoc_rel d"
    using project_record_in_company by blast+
  from assoc_rel_project_ids[OF m rel] have ex: "\<exists>PE \<in> set (projectsCache res). uuid PE = uuid P"
    unfolding res by (rule project_entry_exists)
  have eq: "members P = map without_companyId (filter (\<lambda>m. companyId m = uuid C) (members PE))"
    if "PE \<in> set (projectsCache res)" "uuid PE = uuid P" for PE
  proof -
    from that(1) res obtain project where
      PE: "PE = project_entry_of ck (byId_of cs Map.empty) d puc project"
      by (auto elim: in_projectsCache)
    from that(2) PE have pid: "str_of (project ''id'') = uuid P" by simp
    have "members P = embedded_members ck puc company (uuid P)"
      by (subst P) simp
    then show ?thesis
      unfolding PE members_project_entry_of pid C uuid_company_entry
        embedded_members_as_filter[of company, OF tc]
      by (simp add: embedded_members_def)
  qed
  have cnt: "count_list (members P) (without_companyId m) = count_list (members PE) m"
    if "PE \<in> set (projectsCache res)" "uuid PE = uuid P" "m \<in> set (members PE)"
       "companyId m = uuid C" for PE m
  proof -
    have inj: "y = m" if "companyId y = uuid C" "without_companyId y = without_companyId m" for y
      using that \<open>companyId m = uuid C\<close>
      by (cases y, cases m) (simp add: without_companyId_def)
    show ?thesis
      unfolding eq[OF that(1,2)]
      by (rule count_list_map_filter_inj) (use that inj in auto)
  qed
  from ex eq cnt show ?thesis by blast
qed

theorem member_intersection_witness:
  "buildCompaniesCache code_unit_key example_net = Some (Inr example_caches) \<and>
   companiesCache example_caches ! 1 \<in> set (companiesCache example_caches) \<and>
   projects (companiesCache example_caches ! 1) ! 0 \<in>
     set (projects (companiesCache example_caches ! 1)) \<and>
   projectsCache example_caches ! 1 \<in> set (projectsCache example_caches) \<and>
   uuid (projectsCache example_caches ! 1) = uuid (projects (companiesCache example_caches ! 1) ! 0) \<and>
   members (projectsCache example_caches ! 1) ! 1 \<in> set (members (projectsCache example_caches ! 1)) \<and>
   companyId (members (projectsCache example_caches ! 1) ! 1) = uuid (companiesCache example_caches ! 1) \<and>
   members (projects (companiesCache example_caches ! 1) ! 0) =
     map without_companyId
       (filter (\<lambda>m. companyId m = uuid (companiesCache example_caches ! 1))
          (members (projectsCache example_caches ! 1))) \<and>
   count_list (members (projects (companiesCache example_caches ! 1) ! 0))
     (without_companyId (members (projectsCache example_caches ! 1) ! 1)) = 1"
proof -
  let ?C = "companiesCache example_caches ! 1"
  let ?P = "projects ?C ! 0"
  let ?PE = "projectsCache example_caches ! 1"
  let ?m = "members ?PE ! 1"
  have c: "?C \<in> set (companiesCache example_caches)"
    and p: "?P \<in> set (projects ?C)"
    and pe: "?PE \<in> set (projectsCache example_caches)"
    and u: "uuid ?PE = uuid ?P"
    and m: "?m \<in> set (members ?PE)"
    and ci: "companyId ?m = uuid ?C"
    and once: "count_list (members ?PE) ?m = 1"
    by (simp_all add: example_caches_def)
  from member_intersection[OF example_build c p] pe u m ci
  have "members ?P = map without_companyId (filter (\<lambda>m. companyId m = uuid ?C) (members ?PE))"
    and "count_list (members ?P) (without_companyId ?m) = count_list (members ?PE) ?m"
    by blast+
  with example_build c p pe u m ci once show ?thesis by simp
qed

section \<open>Sorting (C7)\<close>

text \<open>
  C7, as stated, keeps ties in the original fetch order in every nested list.  A company's
  \<open>projects\<close> list is built from the project ids sorted ascending (\<open>[...set].sort()\<close>) and
  then sorted by name, so projects whose names are equal up to case come in id order: the
  projects \<open>b\<close> (named \<open>X\<close>) and \<open>a\<close> (named \<open>x\<close>), fetched in this order, are listed
  \<open>a\<close>, \<open>b\<close> under their company.
\<close>

theorem project_ties_follow_ids:
  "ProjectsAPI_fetchAll (projects_srv tie_net) = Some (Inr tie_projects) \<and>
   project_ids tie_projects = [''b'', ''a''] \<and>
   buildCompaniesCache code_unit_key tie_net = Some (Inr tie_caches) \<and>
   map (toLowerCase \<circ> name) (projects (companiesCache tie_caches ! 0)) = [''x'', ''x''] \<and>
   map uuid (projects (companiesCache tie_caches ! 0)) = [''a'', ''b'']"
proof -
  have len: "length tie_projects = 2" by (simp add: tie_projects_def)
  have f: "ProjectsAPI_fetchAll (projects_srv tie_net) = Some (Inr tie_projects)"
    unfolding ProjectsAPI_fetchAll_def ProjectsAPI_fetchAll_run_def
    by (subst fetchAll_loop.simps)
       (simp add: tie_net_def first_page_def results_or_payload_def len)
  have ids: "project_ids tie_projects = [''b'', ''a'']"
    by (simp add: project_ids_def tie_projects_def truthy_def str_of_def)
  have lc: "toLowerCase ''X'' = ''x''" "toLowerCase ''x'' = ''x''"
    by code_simp+
  from f ids tie_build lc show ?thesis
    by (simp add: tie_caches_def)
qed

text \<open>
  C7, amended.  In both caches returned by \<open>buildCompaniesCache\<close> the top-level arrays and
  every nested \<open>members\<close>, \<open>users\<close>, \<open>projects\<close> and \<open>companies\<close> list are sorted ascending
  by case-insensitive name (the collation key of the lower-cased name).  Entries whose
  names tie are in fetch order in the top-level arrays (the order of the account-level
  fetch) and in every \<open>users\<close> and \<open>members\<close> list (the order of the account users and of
  the project's fetched roster); in a company's \<open>projects\<close> list they are in ascending
  project id order; in a project's \<open>companies\<close> list they are in the key order of the
  \<open>projectIdsByCompany\<close> index.  Companies named \<open>bravo\<close>, \<open>Alpha\<close>, \<open>charlie\<close> assemble to
  the top-level order \<open>Alpha\<close>, \<open>bravo\<close>, \<open>charlie\<close> under every collation that orders
  \<open>alpha\<close> before \<open>bravo\<close> before \<open>charlie\<close>.
\<close>

theorem sorting_invariant:
  fixes ck :: "string \<Rightarrow> 'k::linorder"
  assumes "buildCompaniesCache ck net = Some (Inr res)"
  shows
  "name_sorted ck (companiesCache res) \<and> name_sorted ck (projectsCache res) \<and>
   (\<forall>C \<in> set (companiesCache res).
      name_sorted ck (projects C) \<and> name_sorted ck (users C) \<and>
      (\<forall>P \<in> set (projects C). name_sorted ck (members P))) \<and>
   (\<forall>PE \<in> set (projectsCache res).
      name_sorted ck (members PE) \<and> name_sorted ck (companies PE)) \<and>
   (\<exists>cs us ps d puc.
      CompaniesAPI_fetchAll (companies_srv net) = Some (Inr cs) \<and>
      UsersAPI_fetchAll (users_srv net) = Some (Inr us) \<and>
      ProjectsAPI_fetchAll (projects_srv net) = Some (Inr ps) \<and>
      map_projects net ps [] Map.empty = Some (Inr (d, puc)) \<and>
      (\<forall>k. map uuid (filter (\<lambda>r. name_key ck r = k) (companiesCache res)) =
            map (\<lambda>c. str_of (c ''id''))
              (filter (\<lambda>c. truthy (c ''id'') \<and> ck (toLowerCase (or_empty (c ''name''))) = k) cs)) \<and>
      (\<forall>k. map uuid (filter (\<lambda>r. name_key ck r = k) (projectsCache res)) =
            map (\<lambda>p. str_of (p ''id''))
              (filter (\<lambda>p. truthy (p ''id'') \<and> ck (toLowerCase (or_empty (p ''name''))) = k) ps)) \<and>
      (\<forall>C \<in> set (companiesCache res). \<forall>k.
         map uuid (filter (\<lambda>r. name_key ck r = k) (users C)) =
           map (\<lambda>u. str_of (u ''id''))
             (filter (\<lambda>u. (truthy (u ''id'') \<and>
                            js_or (u ''company_id'') (u ''companyId'') = Some (uuid C)) \<and>
                           ck (toLowerCase (displayUserName u)) = k) us) \<and>
         sorted (map uuid (filter (\<lambda>r. name_key ck r = k) (projects C))) \<and>
         (\<forall>P \<in> set (projects C). \<forall>roster.
            fetchProjectUsers (project_users_srv net (uuid P)) = Some roster \<longrightarrow>
            map uuid (filter (\<lambda>r. name_key ck r = k) (members P)) =
              map (\<lambda>u. str_of (u ''id''))
                (filter (\<lambda>pu. (pu ''companyId'' = Some (uuid C) \<and> truthy (pu ''id'')) \<and>
                               ck (toLowerCase (displayUserName pu)) = k) roster))) \<and>
      (\<forall>PE \<in> set (projectsCache res). \<forall>k.
         (\<forall>roster.
            fetchProjectUsers (project_users_srv net (uuid PE)) = Some roster \<longrightarrow>
            map uuid (filter (\<lambda>r. name_key ck r = k) (members PE)) =
              map (\<lambda>u. str_of (u ''id''))
                (filter (\<lambda>pu. truthy (pu ''id'') \<and>
                               ck (toLowerCase (displayUserName pu)) = k) roster)) \<and>
         map uuid (filter (\<lambda>r. name_key ck r = k) (companies PE)) =
           filter (\<lambda>cid. cid \<in> uuid ` set (filter (\<lambda>r. name_key ck r = k) (companies PE)))
             (map fst (object_entries d))) \<and>
      (map (\<lambda>c. or_empty (c ''name'')) (filter (\<lambda>c. truthy (c ''id'')) cs) =
         [''bravo'', ''Alpha'', ''charlie''] \<and>
       ck ''alpha'' < ck ''bravo'' \<and> ck ''bravo'' < ck ''charlie'' \<longrightarrow>
       map name (companiesCache res) = [''Alpha'', ''bravo'', ''charlie'']))"
proof -
  from assms obtain cs us ps ubc d puc where
    f: "CompaniesAPI_fetchAll (companies_srv net) = Some (Inr cs)"
       "UsersAPI_fetchAll (users_srv net) = Some (Inr us)"
       "ProjectsAPI_fetchAll (projects_srv net) = Some (Inr ps)"
    and u: "usersByCompany_of us Map.empty = Inr ubc"
    and m: "map_projects net ps [] Map.empty = Some (Inr (d, puc))"
    and res: "res = assembled ck cs ubc ps d puc"
    by (rule buildCompaniesCache_SomeD)
  from m have dist: "distinct (map fst d)"
    by (rule map_projects_distinct) simp
  let ?pbi = "byId_of ps Map.empty"
  let ?cbi = "byId_of cs Map.empty"
  have cc: "companiesCache res = sort_by_name ck
      (map (company_entry ck ubc ?pbi d puc) (filter (\<lambda>c. truthy (c ''id'')) cs))"
    by (simp add: res assembled_def)
  have pc: "projectsCache res = sort_by_name ck
      (map (project_entry_of ck ?cbi d puc) (filter (\<lambda>p. truthy (p ''id'')) ps))"
    by (simp add: res assembled_def projectsResult_of_def)
  have top: "name_sorted ck (companiesCache res)" "name_sorted ck (projectsCache res)"
    by (simp_all add: cc pc)
  have inC: "\<exists>company. truthy (company ''id'') \<and>
      C = company_entry ck ubc ?pbi d puc company"
    if "C \<in> set (companiesCache res)" for C
    using that by (auto simp: cc)
  have inP: "\<exists>project. project \<in> set ps \<and> truthy (project ''id'') \<and>
      PE = project_entry_of ck ?cbi d puc project"
    if "PE \<in> set (projectsCache res)" for PE
    using that by (auto simp: pc)
  have nestedC: "name_sorted ck (projects C) \<and> name_sorted ck (users C) \<and>
      (\<forall>P \<in> set (projects C). name_sorted ck (members P))"
    if "C \<in> set (companiesCache res)" for C
  proof -
    from inC[OF that] obtain company where
      C: "C = company_entry ck ubc ?pbi d puc company" by blast
    show ?thesis
      by (auto simp: C projects_company_entry users_company_entry embedded_members_def)
  qed
  have nestedP: "name_sorted ck (members PE) \<and> name_sorted ck (companies PE)"
    if "PE \<in> set (projectsCache res)" for PE
  proof -
    from inP[OF that] obtain project where
      P: "PE = project_entry_of ck ?cbi d puc project" by blast
    show ?thesis
      by (simp add: P members_project_entry_of companies_project_entry_of)
  qed
  have tiesC: "map uuid (filter (\<lambda>r. name_key ck r = k) (companiesCache res)) =
            map (\<lambda>c. str_of (c ''id''))
              (filter (\<lambda>c. truthy (c ''id'') \<and> ck (toLowerCase (or_empty (c ''name''))) = k) cs)"
    for k
    by (simp add: cc uuids_of_ties)
  have tiesP: "map uuid (filter (\<lambda>r. name_key ck r = k) (projectsCache res)) =
            map (\<lambda>p. str_of (p ''id''))
              (filter (\<lambda>p. truthy (p ''id'') \<and> ck (toLowerCase (or_empty (p ''name''))) = k) ps)"
    for k
    by (simp add: pc uuids_of_ties)
  have tiesNC: "map uuid (filter (\<lambda>r. name_key ck r = k) (users C)) =
           map (\<lambda>u. str_of (u ''id''))
             (filter (\<lambda>u. (truthy (u ''id'') \<and>
                            js_or (u ''company_id'') (u ''companyId'') = Some (uuid C)) \<and>
                           ck (toLowerCase (displayUserName u)) = k) us) \<and>
         sorted (map uuid (filter (\<lambda>r. name_key ck r = k) (projects C))) \<and>
         (\<forall>P \<in> set (projects C). \<forall>roster.
            fetchProjectUsers (project_users_srv net (uuid P)) = Some roster \<longrightarrow>
            map uuid (filter (\<lambda>r. name_key ck r = k) (members P)) =
              map (\<lambda>u. str_of (u ''id''))
                (filter (\<lambda>pu. (pu ''companyId'' = Some (uuid C) \<and> truthy (pu ''id'')) \<and>
                               ck (toLowerCase (displayUserName pu)) = k) roster))"
    if "C \<in> set (companiesCache res)" for C k
  proof -
    from inC[OF that] obtain company where tc: "truthy (company ''id'')" and
      C: "C = company_entry ck ubc ?pbi d puc company" by blast
    have u: "map uuid (filter (\<lambda>r. name_key ck r = k) (users C)) =
           map (\<lambda>u. str_of (u ''id''))
             (filter (\<lambda>u. (truthy (u ''id'') \<and>
                            js_or (u ''company_id'') (u ''companyId'') = Some (uuid C)) \<and>
                           ck (toLowerCase (displayUserName u)) = k) us)"
      unfolding C users_in_company[where company = company, OF u tc] uuids_of_ties by simp
    have p: "sorted (map uuid (filter (\<lambda>r. name_key ck r = k) (projects C)))"
      unfolding C by (rule project_ties_sorted)
    have mm: "map uuid (filter (\<lambda>r. name_key ck r = k) (members P)) =
              map (\<lambda>u. str_of (u ''id''))
                (filter (\<lambda>pu. (pu ''companyId'' = Some (uuid C) \<and> truthy (pu ''id'')) \<and>
                               ck (toLowerCase (displayUserName pu)) = k) roster)"
      if "P \<in> set (projects C)"
        "fetchProjectUsers (project_users_srv net (uuid P)) = Some roster" for P roster
    proof -
      from embedded_members_raw[OF assms \<open>C \<in> set (companiesCache res)\<close> that(1)] that(2)
      have "members P = sort_by_name ck (map member_of
             (filter (\<lambda>pu. pu ''companyId'' = Some (uuid C) \<and> truthy (pu ''id'')) roster))"
        by simp
      then show ?thesis by (simp add: uuids_of_ties)
    qed
    from u p mm show ?thesis by blast
  qed
  have tiesNP: "(\<forall>roster.
            fetchProjectUsers (project_users_srv net (uuid PE)) = Some roster \<longrightarrow>
            map uuid (filter (\<lambda>r. name_key ck r = k) (members PE)) =
              map (\<lambda>u. str_of (u ''id''))
                (filter (\<lambda>pu. truthy (pu ''id'') \<and>
                               ck (toLowerCase (displayUserName pu)) = k) roster)) \<and>
         map uuid (filter (\<lambda>r. name_key ck r = k) (companies PE)) =
           filter (\<lambda>cid. cid \<in> uuid ` set (filter (\<lambda>r. name_key ck r = k) (companies PE)))
             (map fst (object_entries d))"
    if "PE \<in> set (projectsCache res)" for PE k
  proof -
    from inP[OF that] obtain project where tp: "truthy (project ''id'')"
      and pin: "project \<in> set ps"
      and P: "PE = project_entry_of ck ?cbi d puc project" by blast
    have pid: "str_of (project ''id'') \<in> set (project_ids ps)"
      using tp pin by (auto simp: project_ids_def)
    have mm: "map uuid (filter (\<lambda>r. name_key ck r = k) (members PE)) =
              map (\<lambda>u. str_of (u ''id''))
                (filter (\<lambda>pu. truthy (pu ''id'') \<and>
                               ck (toLowerCase (displayUserName pu)) = k) roster)"
      if "fetchProjectUsers (project_users_srv net (uuid PE)) = Some roster" for roster
    proof -
      from map_projects_users[OF m, of "str_of (project ''id'')"] pid that P
      have "puc (str_of (project ''id'')) = Some roster" by simp
      then show ?thesis
        by (simp add: P members_project_entry_of uuids_of_ties)
    qed
    have "map uuid (filter (\<lambda>r. name_key ck r = k) (companies PE)) =
           filter (\<lambda>cid. cid \<in> uuid ` set (filter (\<lambda>r. name_key ck r = k) (companies PE)))
             (map fst (object_entries d))"
      unfolding P by (rule company_ties_follow_index[OF dist])
    with mm show ?thesis by blast
  qed
  have ex: "map name (companiesCache res) = [''Alpha'', ''bravo'', ''charlie'']"
    if "map (\<lambda>c. or_empty (c ''name'')) (filter (\<lambda>c. truthy (c ''id'')) cs) =
         [''bravo'', ''Alpha'', ''charlie'']"
       "ck ''alpha'' < ck ''bravo''" "ck ''bravo'' < ck ''charlie''"
  proof -
    have "map name (map (company_entry ck ubc ?pbi d puc) (filter (\<lambda>c. truthy (c ''id'')) cs)) =
        [''bravo'', ''Alpha'', ''charlie'']"
      using that(1) by (simp add: comp_def)
    from three_names_sorted[OF this that(2,3)] show ?thesis by (simp add: cc)
  qed
  have ties: "\<exists>cs us ps d puc.
      CompaniesAPI_fetchAll (companies_srv net) = Some (Inr cs) \<and>
      UsersAPI_fetchAll (users_srv net) = Some (Inr us) \<and>
      ProjectsAPI_fetchAll (projects_srv net) = Some (Inr ps) \<and>
      map_projects net ps [] Map.empty = Some (Inr (d, puc)) \<and>
      (\<forall>k. map uuid (filter (\<lambda>r. name_key ck r = k) (companiesCache res)) =
            map (\<lambda>c. str_of (c ''id''))
              (filter (\<lambda>c. truthy (c ''id'') \<and> ck (toLowerCase (or_empty (c ''name''))) = k) cs)) \<and>
      (\<forall>k. map uuid (filter (\<lambda>r. name_key ck r = k) (projectsCache res)) =
            map (\<lambda>p. str_of (p ''id''))
              (filter (\<lambda>p. truthy (p ''id'') \<and> ck (toLowerCase (or_empty (p ''name''))) = k) ps)) \<and>
      (\<forall>C \<in> set (companiesCache res). \<forall>k.
         map uuid (filter (\<lambda>r. name_key ck r = k) (users C)) =
           map (\<lambda>u. str_of (u ''id''))
             (filter (\<lambda>u. (truthy (u ''id'') \<and>
                            js_or (u ''company_id'') (u ''companyId'') = Some (uuid C)) \<and>
                           ck (toLowerCase (displayUserName u)) = k) us) \<and>
         sorted (map uuid (filter (\<lambda>r. name_key ck r = k) (projects C))) \<and>
         (\<forall>P \<in> set (projects C). \<forall>roster.
            fetchProjectUsers (project_users_srv net (uuid P)) = Some roster \<longrightarrow>
            map uuid (filter (\<lambda>r. name_key ck r = k) (members P)) =
              map (\<lambda>u. str_of (u ''id''))
                (filter (\<lambda>pu. (pu ''companyId'' = Some (uuid C) \<and> truthy (pu ''id'')) \<and>
                               ck (toLowerCase (displayUserName pu)) = k) roster))) \<and>
      (\<forall>PE \<in> set (projectsCache res). \<forall>k.
         (\<forall>roster.
            fetchProjectUsers (project_users_srv net (uuid PE)) = Some roster \<longrightarrow>
            map uuid (filter (\<lambda>r. name_key ck r = k) (members PE)) =
              map (\<lambda>u. str_of (u ''id''))
                (filter (\<lambda>pu. truthy (pu ''id'') \<and>
                               ck (toLowerCase (displayUserName pu)) = k) roster)) \<and>
         map uuid (filter (\<lambda>r. name_key ck r = k) (companies PE)) =
           filter (\<lambda>cid. cid \<in> uuid ` set (filter (\<lambda>r. name_key ck r = k) (companies PE)))
             (map fst (object_entries d))) \<and>
      (map (\<lambda>c. or_empty (c ''name'')) (filter (\<lambda>c. truthy (c ''id'')) cs) =
         [''bravo'', ''Alpha'', ''charlie''] \<and>
       ck ''alpha'' < ck ''bravo'' \<and> ck ''bravo'' < ck ''charlie'' \<longrightarrow>
       map name (companiesCache res) = [''Alpha'', ''bravo'', ''charlie''])"
  proof (rule exI[where x = cs], rule exI[where x = us], rule exI[where x = ps],
      rule exI[where x = d], rule exI[where x = puc], intro conjI)
    show "\<forall>C \<in> set (companiesCache res). \<forall>k.
         map uuid (filter (\<lambda>r. name_key ck r = k) (users C)) =
           map (\<lambda>u. str_of (u ''id''))
             (filter (\<lambda>u. (truthy (u ''id'') \<and>
                            js_or (u ''company_id'') (u ''companyId'') = Some (uuid C)) \<and>
                           ck (toLowerCase (displayUserName u)) = k) us) \<and>
         sorted (map uuid (filter (\<lambda>r. name_key ck r = k) (projects C))) \<and>
         (\<forall>P \<in> set (projects C). \<forall>roster.
            fetchProjectUsers (project_users_srv net (uuid P)) = Some roster \<longrightarrow>
            map uuid (filter (\<lambda>r. name_key ck r = k) (members P)) =
              map (\<lambda>u. str_of (u ''id''))
                (filter (\<lambda>pu. (pu ''companyId'' = Some (uuid C) \<and> truthy (pu ''id'')) \<and>
                               ck (toLowerCase (displayUserName pu)) = k) roster))"
      using tiesNC by (intro ballI allI) 
    show "\<forall>PE \<in> set (projectsCache res). \<forall>k.
         (\<forall>roster.
            fetchProjectUsers (project_users_srv net (uuid PE)) = Some roster \<longrightarrow>
            map uuid (filter (\<lambda>r. name_key ck r = k) (members PE)) =
              map (\<lambda>u. str_of (u ''id''))
                (filter (\<lambda>pu. truthy (pu ''id'') \<and>
                               ck (toLowerCase (displayUserName pu)) = k) roster)) \<and>
         map uuid (filter (\<lambda>r. name_key ck r = k) (companies PE)) =
           filter (\<lambda>cid. cid \<in> uuid ` set (filter (\<lambda>r. name_key ck r = k) (companies PE)))
             (map fst (object_entries d))"
      using tiesNP by (intro ballI allI)
    show "map (\<lambda>c. or_empty (c ''name'')) (filter (\<lambda>c. truthy (c ''id'')) cs) =
         [''bravo'', ''Alpha'', ''charlie''] \<and>
       ck ''alpha'' < ck ''bravo'' \<and> ck ''bravo'' < ck ''charlie'' \<longrightarrow>
       map name (companiesCache res) = [''Alpha'', ''bravo'', ''charlie'']"
      by (intro impI; elim conjE; rule ex; assumption)
  qed (use f m tiesC tiesP in blast)+
  have nC: "\<forall>C \<in> set (companiesCache res).
      name_sorted ck (projects C) \<and> name_sorted ck (users C) \<and>
      (\<forall>P \<in> set (projects C). name_sorted ck (members P))"
    using nestedC by (intro ballI)
  have nP: "\<forall>PE \<in> set (projectsCache res).
      name_sorted ck (members PE) \<and> name_sorted ck (companies PE)"
    using nestedP by (intro ballI)
  from top nC nP ties show ?thesis
    by (intro conjI)
qed

theorem sorting_invariant_witness:
  "buildCompaniesCache code_unit_key example_net = Some (Inr example_caches) \<and>
   CompaniesAPI_fetchAll (companies_srv example_net) = Some (Inr example_companies) \<and>
   map (\<lambda>c. or_empty (c ''name'')) (filter (\<lambda>c. truthy (c ''id'')) example_companies) =
     [''bravo'', ''Alpha'', ''charlie''] \<and>
   code_unit_key ''alpha'' < code_unit_key ''bravo'' \<and>
   code_unit_key ''bravo'' < code_unit_key ''charlie'' \<and>
   map name (companiesCache example_caches) = [''Alpha'', ''bravo'', ''charlie''] \<and>
   companiesCache example_caches ! 1 \<in> set (companiesCache example_caches) \<and>
   projectsCache example_caches ! 1 \<in> set (projectsCache example_caches) \<and>
   name_sorted code_unit_key (projects (companiesCache example_caches ! 1)) \<and>
   name_sorted code_unit_key (members (projectsCache example_caches ! 1)) \<and>
   name_sorted code_unit_key (companies (projectsCache example_caches ! 1))"
proof -
  have len: "length example_companies = 3"
    by (simp add: example_companies_def)
  have fc: "CompaniesAPI_fetchAll (companies_srv example_net) = Some (Inr example_companies)"
    unfolding CompaniesAPI_fetchAll_def CompaniesAPI_fetchAll_run_def
    by (subst fetchAll_loop.simps)
       (simp add: example_net_def first_page_def whole_payload_def len)
  have names: "map (\<lambda>c. or_empty (c ''name'')) (filter (\<lambda>c. truthy (c ''id'')) example_companies) =
     [''bravo'', ''Alpha'', ''charlie'']"
    by (simp add: example_companies_def truthy_def or_empty_def js_or_def)
  have ord: "code_unit_key ''alpha'' < code_unit_key ''bravo''"
    "code_unit_key ''bravo'' < code_unit_key ''charlie''"
    by (simp_all add: code_unit_key_def)
  have c: "companiesCache example_caches ! 1 \<in> set (companiesCache example_caches)"
    and p: "projectsCache example_caches ! 1 \<in> set (projectsCache example_caches)"
    by (simp_all add: example_caches_def)
  note s = sorting_invariant[OF example_build]
  from s c have 1: "name_sorted code_unit_key (projects (companiesCache example_caches ! 1))"
    by blast
  from s p have 2: "name_sorted code_unit_key (members (projectsCache example_caches ! 1))"
    "name_sorted code_unit_key (companies (projectsCache example_caches ! 1))"
    by blast+
  from s obtain cs where "CompaniesAPI_fetchAll (companies_srv example_net) = Some (Inr cs)"
    and imp: "map (\<lambda>c. or_empty (c ''name'')) (filter (\<lambda>c. truthy (c ''id'')) cs) =
         [''bravo'', ''Alpha'', ''charlie''] \<and>
       code_unit_key ''alpha'' < code_unit_key ''bravo'' \<and>
       code_unit_key ''bravo'' < code_unit_key ''charlie'' \<longrightarrow>
       map name (companiesCache example_caches) = [''Alpha'', ''bravo'', ''charlie'']"
    by (elim conjE exE)
  with fc have cs: "cs = example_companies" by simp
  have 3: "map name (companiesCache example_caches) = [''Alpha'', ''bravo'', ''charlie'']"
    by (rule imp[unfolded cs, THEN mp, OF conjI[OF names conjI[OF ord(1) ord(2)]]])
  from example_build fc names ord 3 c p 1 2 show ?thesis
    by (intro conjI)
qed

section \<open>Per-project fetch failures (C3)\<close>

text \<open>
  C3, as stated, turns every failure of a per-project fetch into an empty result.  A
  response that is not a success leaves the loop by \<open>break\<close> with the pages collected so
  far: when the companies endpoint of project \<open>p1\<close> answers the first request with a full
  page and the second one with status 500, the build completes, but \<open>p1\<close> has a company in
  \<open>projectsCache\<close> and is listed under that company.
\<close>

theorem later_page_failure_keeps_companies:
  "project_companies_srv partial_net ''p1'' 100 = NotOk 500 None \<and>
   buildCompaniesCache code_unit_key partial_net = Some (Inr partial_caches) \<and>
   uuid (projectsCache partial_caches ! 0) = ''p1'' \<and>
   companies (projectsCache partial_caches ! 0) \<noteq> [] \<and>
   ''p1'' \<in> uuid ` set (projects (companiesCache partial_caches ! 0))"
  using partial_build
  by (simp add: partial_net_def one_page_then_def partial_caches_def)

text \<open>
  C3, amended.  When the account-level fetches succeed, every per-project fetch returns, and
  no company id that the builder uses as a dictionary key (the ids of the account companies,
  the company ids of the account users, the ids of the companies fetched per project) names
  a property of \<open>Object.prototype\<close>, the build completes and every project with an id
  appears in \<open>projectsCache\<close>, whatever failed in its per-project fetches: these never
  throw.  If the companies fetch of project \<open>P\<close> fails at its first request (a response
  that is not a success, a rejected request or a body that is not JSON), or a later request
  of it is rejected, it returns the empty list, \<open>P\<close> appears with \<open>companies: []\<close> and no
  company's \<open>projects\<close> list contains \<open>P\<close>.  If the members fetch of \<open>P\<close> fails at its
  first request, it returns the empty list and \<open>P\<close> appears with \<open>members: []\<close>.  (A
  response that is not a success after the first page keeps the pages collected so far; a
  company id such as \<open>constructor\<close> makes the build throw a \<open>TypeError\<close>, as in
  \<open>inherited_key_throws\<close>.)
\<close>

theorem per_project_failure_tolerance:
  fixes ck :: "string \<Rightarrow> 'k::linorder"
  assumes "CompaniesAPI_fetchAll (companies_srv net) = Some (Inr cs)"
    and "UsersAPI_fetchAll (users_srv net) = Some (Inr us)"
    and "ProjectsAPI_fetchAll (projects_srv net) = Some (Inr ps)"
    and "\<forall>pid \<in> set (project_ids ps).
           fetchProjectUsers (project_users_srv net pid) \<noteq> None \<and>
           (\<exists>pc. fetchProjectCompanies (project_companies_srv net pid) = Some pc \<and>
                 (\<forall>c \<in> set pc. plain_key (c ''id'')))"
    and "\<forall>c \<in> set cs. plain_key (c ''id'')"
    and "\<forall>u \<in> set us. plain_key (js_or (u ''company_id'') (u ''companyId''))"
    and "p \<in> set ps" and "truthy (p ''id'')"
  shows "\<exists>res. buildCompaniesCache ck net = Some (Inr res) \<and>
           (\<exists>PE \<in> set (projectsCache res). uuid PE = str_of (p ''id'')) \<and>
           (companies_fetch_fails (project_companies_srv net (str_of (p ''id''))) \<longrightarrow>
              fetchProjectCompanies (project_companies_srv net (str_of (p ''id''))) = Some [] \<and>
              (\<forall>PE \<in> set (projectsCache res). uuid PE = str_of (p ''id'') \<longrightarrow> companies PE = []) \<and>
              (\<forall>C \<in> set (companiesCache res). str_of (p ''id'') \<notin> uuid ` set (projects C))) \<and>
           (members_fetch_fails (project_users_srv net (str_of (p ''id''))) \<longrightarrow>
              fetchProjectUsers (project_users_srv net (str_of (p ''id''))) = Some [] \<and>
              (\<forall>PE \<in> set (projectsCache res). uuid PE = str_of (p ''id'') \<longrightarrow> members PE = []))"
proof -
  let ?pid = "str_of (p ''id'')"
  from assms(4) have ret: "\<forall>pid \<in> set (project_ids ps).
           fetchProjectCompanies (project_companies_srv net pid) \<noteq> None \<and>
           fetchProjectUsers (project_users_srv net pid) \<noteq> None"
    and plain: "\<forall>pid \<in> set (project_ids ps). \<forall>pc.
           fetchProjectCompanies (project_companies_srv net pid) = Some pc \<longrightarrow>
           (\<forall>c \<in> set pc. plain_key (c ''id''))"
    by fastforce+
  from assms(1-3) ret assms(5,6) plain obtain ubc d puc where
    m: "map_projects net ps [] Map.empty = Some (Inr (d, puc))"
    and b: "buildCompaniesCache ck net = Some (Inr (assembled ck cs ubc ps d puc))"
    by (rule build_returns)
  let ?res = "assembled ck cs ubc ps d puc"
  from m have dist: "distinct (map fst d)"
    by (rule map_projects_distinct) simp
  have pid: "?pid \<in> set (project_ids ps)"
    using assms(7,8) by (auto simp: project_ids_def)
  then have ex: "\<exists>PE \<in> set (projectsCache ?res). uuid PE = ?pid"
    by (rule project_entry_exists)
  have comp: "fetchProjectCompanies (project_companies_srv net ?pid) = Some [] \<and>
      (\<forall>PE \<in> set (projectsCache ?res). uuid PE = ?pid \<longrightarrow> companies PE = []) \<and>
      (\<forall>C \<in> set (companiesCache ?res). ?pid \<notin> uuid ` set (projects C))"
    if "companies_fetch_fails (project_companies_srv net ?pid)"
  proof -
    from that have e: "fetchProjectCompanies (project_companies_srv net ?pid) = Some []"
      by (rule companies_fetch_fails_empty)
    have na: "(cid, ?pid) \<notin> assoc_rel d" for cid
      by (rule no_companies_no_assoc[OF m e])
    have 1: "companies PE = []" if "PE \<in> set (projectsCache ?res)" "uuid PE = ?pid" for PE
    proof -
      from that(1) obtain project where
        PE: "PE = project_entry_of ck (byId_of cs Map.empty) d puc project"
        by (auto elim: in_projectsCache)
      with that(2) have "str_of (project ''id'') = ?pid" by simp
      with uuids_companies_project_entry_of[OF dist, of ck "byId_of cs Map.empty" puc project] na
      have "uuid ` set (companies PE) = {}" by (simp add: PE)
      then show ?thesis by simp
    qed
    have 2: "?pid \<notin> uuid ` set (projects C)" if "C \<in> set (companiesCache ?res)" for C
    proof -
      from that obtain company where
        C: "C = company_entry ck ubc (byId_of ps Map.empty) d puc company"
        by (auto elim: in_companiesCache)
      show ?thesis
        unfolding C uuids_projects_company_entry using na by simp
    qed
    from e 1 2 show ?thesis by blast
  qed
  have memb: "fetchProjectUsers (project_users_srv net ?pid) = Some [] \<and>
      (\<forall>PE \<in> set (projectsCache ?res). uuid PE = ?pid \<longrightarrow> members PE = [])"
    if "members_fetch_fails (project_users_srv net ?pid)"
  proof -
    from that have e: "fetchProjectUsers (project_users_srv net ?pid) = Some []"
      by (rule members_fetch_fails_empty)
    with map_projects_users[OF m, of ?pid] pid have puc: "puc ?pid = Some []" by simp
    have "members PE = []" if "PE \<in> set (projectsCache ?res)" "uuid PE = ?pid" for PE
    proof -
      from that(1) obtain project where
        PE: "PE = project_entry_of ck (byId_of cs Map.empty) d puc project"
        by (auto elim: in_projectsCache)
      with that(2) have "str_of (project ''id'') = ?pid" by simp
      with puc show ?thesis
        by (simp add: PE members_project_entry_of sort_by_name_def)
    qed
    with e show ?thesis by blast
  qed
  from b ex comp memb show ?thesis by blast
qed

theorem per_project_failure_tolerance_witness:
  "CompaniesAPI_fetchAll (companies_srv example_net) = Some (Inr example_companies) \<and>
   UsersAPI_fetchAll (users_srv example_net) = Some (Inr example_users) \<and>
   ProjectsAPI_fetchAll (projects_srv example_net) = Some (Inr example_projects) \<and>
   project_ids example_projects = [''p1'', ''p2''] \<and>
   fetchProjectCompanies (project_companies_srv example_net ''p1'') = Some example_p1_companies \<and>
   fetchProjectUsers (project_users_srv example_net ''p1'') \<noteq> None \<and>
   fetchProjectCompanies (project_companies_srv example_net ''p2'') = Some [] \<and>
   fetchProjectUsers (project_users_srv example_net ''p2'') \<noteq> None \<and>
   list_all (\<lambda>c. plain_key (c ''id'')) example_p1_companies \<and>
   list_all (\<lambda>c. plain_key (c ''id'')) example_companies \<and>
   list_all (\<lambda>u. plain_key (js_or (u ''company_id'') (u ''companyId''))) example_users \<and>
   example_projects ! 1 \<in> set example_projects \<and>
   truthy ((example_projects ! 1) ''id'') \<and>
   str_of ((example_projects ! 1) ''id'') = ''p2'' \<and>
   companies_fetch_fails (project_companies_srv example_net ''p2'') \<and>
   members_fetch_fails (project_users_srv example_net ''p2'') \<and>
   buildCompaniesCache code_unit_key example_net = Some (Inr example_caches) \<and>
   projectsCache example_caches ! 0 \<in> set (projectsCache example_caches) \<and>
   uuid (projectsCache example_caches ! 0) = ''p2'' \<and>
   companies (projectsCache example_caches ! 0) = [] \<and>
   members (projectsCache example_caches ! 0) = [] \<and>
   companiesCache example_caches ! 1 \<in> set (companiesCache example_caches) \<and>
   ''p2'' \<notin> uuid ` set (projects (companiesCache example_caches ! 1))"
proof -
  let ?p = "example_projects ! 1"
  have p: "?p \<in> set example_projects" "truthy (?p ''id'')" "str_of (?p ''id'') = ''p2''"
    by (simp_all add: example_projects_def truthy_def str_of_def)
  have pk: "list_all (\<lambda>c. plain_key (c ''id'')) example_p1_companies"
    "list_all (\<lambda>c. plain_key (c ''id'')) example_companies"
    "list_all (\<lambda>u. plain_key (js_or (u ''company_id'') (u ''companyId''))) example_users"
    by (simp_all add: example_p1_companies_def example_companies_def example_users_def
          plain_key_def Object_prototype_keys_def str_of_def js_or_def truthy_def)
  have ret: "\<forall>pid \<in> set (project_ids example_projects).
           fetchProjectUsers (project_users_srv example_net pid) \<noteq> None \<and>
           (\<exists>pc. fetchProjectCompanies (project_companies_srv example_net pid) = Some pc \<and>
                 (\<forall>c \<in> set pc. plain_key (c ''id'')))"
    using pk(1) by (simp add: example_project_ids example_project_fetches list_all_iff)
  have pc: "\<forall>c \<in> set example_companies. plain_key (c ''id'')"
    and pu: "\<forall>u \<in> set example_users. plain_key (js_or (u ''company_id'') (u ''companyId''))"
    using pk(2,3) by (simp_all add: list_all_iff)
  have cf: "companies_fetch_fails (project_companies_srv example_net ''p2'')"
    by (simp add: companies_fetch_fails_def example_net_def)
  have mf: "members_fetch_fails (project_users_srv example_net ''p2'')"
    by (simp add: members_fetch_fails_def example_net_def)
  have pe: "projectsCache example_caches ! 0 \<in> set (projectsCache example_caches)"
    "uuid (projectsCache example_caches ! 0) = ''p2''"
    and c: "companiesCache example_caches ! 1 \<in> set (companiesCache example_caches)"
    by (simp_all add: example_caches_def)
  from per_project_failure_tolerance
         [OF example_fetches ret pc pu p(1,2), where ck = code_unit_key]
  obtain res where b: "buildCompaniesCache code_unit_key example_net = Some (Inr res)"
    and cc: "companies_fetch_fails (project_companies_srv example_net (str_of (?p ''id''))) \<longrightarrow>
       fetchProjectCompanies (project_companies_srv example_net (str_of (?p ''id''))) = Some [] \<and>
       (\<forall>PE \<in> set (projectsCache res). uuid PE = str_of (?p ''id'') \<longrightarrow> companies PE = []) \<and>
       (\<forall>C \<in> set (companiesCache res). str_of (?p ''id'') \<notin> uuid ` set (projects C))"
    and mm: "members_fetch_fails (project_users_srv example_net (str_of (?p ''id''))) \<longrightarrow>
       fetchProjectUsers (project_users_srv example_net (str_of (?p ''id''))) = Some [] \<and>
       (\<forall>PE \<in> set (projectsCache res). uuid PE = str_of (?p ''id'') \<longrightarrow> members PE = [])"
    by blast
  from b example_build have res: "res = example_caches" by simp
  from cc cf pe c have 1: "companies (projectsCache example_caches ! 0) = []"
    and 2: "''p2'' \<notin> uuid ` set (projects (companiesCache example_caches ! 1))"
    unfolding res p(3) by blast+
  from mm mf pe have 3: "members (projectsCache example_caches ! 0) = []"
    unfolding res p(3) by blast
  have nn: "fetchProjectCompanies (project_companies_srv example_net ''p1'') = Some example_p1_companies"
    "fetchProjectUsers (project_users_srv example_net ''p1'') \<noteq> None"
    "fetchProjectCompanies (project_companies_srv example_net ''p2'') = Some []"
    "fetchProjectUsers (project_users_srv example_net ''p2'') \<noteq> None"
    by (simp_all add: example_project_fetches)
  from example_fetches example_project_ids nn pk p cf mf example_build pe 1 3 c 2
  show ?thesis by (intro conjI)
qed

section \<open>The companyId field (C10)\<close>

text \<open>
  C10.  In every built cache pair, the members embedded under a company \<open>C\<close> for a project
  are the records of that project's fetched roster whose camelCase \<open>companyId\<close> is
  \<open>C.uuid\<close> (and whose \<open>id\<close> is truthy): the roster records without a \<open>companyId\<close> play
  no part, whatever their snake-case \<open>company_id\<close>, and a roster made of such records only
  embeds no member.  The company's top-level \<open>users\<close> roster is made of the account users
  whose \<open>company_id || companyId\<close> is \<open>C.uuid\<close>, so an account user carrying only
  \<open>company_id\<close> is listed there.
\<close>

theorem companyId_field_asymmetry:
  assumes "buildCompaniesCache ck net = Some (Inr res)" and "C \<in> set (companiesCache res)"
  shows "(\<forall>P \<in> set (projects C). \<exists>roster.
            fetchProjectUsers (project_users_srv net (uuid P)) = Some roster \<and>
            members P = sort_by_name ck (map member_of
              (filter (\<lambda>pu. pu ''companyId'' = Some (uuid C) \<and> truthy (pu ''id'')) roster)) \<and>
            members P = sort_by_name ck (map member_of
              (filter (\<lambda>pu. pu ''companyId'' = Some (uuid C) \<and> truthy (pu ''id''))
                 (filter (\<lambda>pu. pu ''companyId'' \<noteq> None) roster))) \<and>
            ((\<forall>pu \<in> set roster. pu ''companyId'' = None) \<longrightarrow> members P = [])) \<and>
         (\<exists>us. UsersAPI_fetchAll (users_srv net) = Some (Inr us) \<and>
            users C = sort_by_name ck (map member_of
              (filter (\<lambda>u. truthy (u ''id'') \<and>
                 js_or (u ''company_id'') (u ''companyId'') = Some (uuid C)) us)) \<and>
            (\<forall>u \<in> set us. truthy (u ''id'') \<and> u ''company_id'' = Some (uuid C) \<longrightarrow>
               member_of u \<in> set (users C)))"
proof -
  have 1: "\<exists>roster.
            fetchProjectUsers (project_users_srv net (uuid P)) = Some roster \<and>
            members P = sort_by_name ck (map member_of
              (filter (\<lambda>pu. pu ''companyId'' = Some (uuid C) \<and> truthy (pu ''id'')) roster)) \<and>
            members P = sort_by_name ck (map member_of
              (filter (\<lambda>pu. pu ''companyId'' = Some (uuid C) \<and> truthy (pu ''id''))
                 (filter (\<lambda>pu. pu ''companyId'' \<noteq> None) roster))) \<and>
            ((\<forall>pu \<in> set roster. pu ''companyId'' = None) \<longrightarrow> members P = [])"
    if "P \<in> set (projects C)" for P
  proof -
    from embedded_members_raw[OF assms that] obtain roster where
      r: "fetchProjectUsers (project_users_srv net (uuid P)) = Some roster"
      and mP: "members P = sort_by_name ck (map member_of
             (filter (\<lambda>pu. pu ''companyId'' = Some (uuid C) \<and> truthy (pu ''id'')) roster))"
      by blast
    have f: "filter (\<lambda>pu. pu ''companyId'' = Some (uuid C) \<and> truthy (pu ''id''))
                 (filter (\<lambda>pu. pu ''companyId'' \<noteq> None) roster) =
             filter (\<lambda>pu. pu ''companyId'' = Some (uuid C) \<and> truthy (pu ''id'')) roster"
      by (induction roster) auto
    have e: "filter (\<lambda>pu. pu ''companyId'' = Some (uuid C) \<and> truthy (pu ''id'')) roster = []"
      if "\<forall>pu \<in> set roster. pu ''companyId'' = None"
      using that by (induction roster) auto
    from r mP f e show ?thesis by (auto simp: sort_by_name_def)
  qed
  from assms(1) obtain cs us ps ubc d puc where
    us: "UsersAPI_fetchAll (users_srv net) = Some (Inr us)"
    and u: "usersByCompany_of us Map.empty = Inr ubc"
    and res: "res = assembled ck cs ubc ps d puc"
    by (rule buildCompaniesCache_SomeD)
  from assms(2) res obtain company where tc: "truthy (company ''id'')" and
    C: "C = company_entry ck ubc (byId_of ps Map.empty) d puc company"
    by (auto elim: in_companiesCache)
  have uC: "users C = sort_by_name ck (map member_of
              (filter (\<lambda>u. truthy (u ''id'') \<and>
                 js_or (u ''company_id'') (u ''companyId'') = Some (uuid C)) us))"
    unfolding C users_in_company[where company = company, OF u tc] by simp
  have ne: "uuid C \<noteq> []" using truthy_SomeD[OF tc] C by simp
  have "member_of u \<in> set (users C)"
    if "u \<in> set us" "truthy (u ''id'')" "u ''company_id'' = Some (uuid C)" for u
  proof -
    from that(3) ne have "js_or (u ''company_id'') (u ''companyId'') = Some (uuid C)"
      by (simp add: js_or_def truthy_def)
    with that show ?thesis unfolding uC by auto
  qed
  with us uC 1 show ?thesis by blast
qed

theorem companyId_field_asymmetry_witness:
  "buildCompaniesCache code_unit_key example_net = Some (Inr example_caches) \<and>
   companiesCache example_caches ! 0 \<in> set (companiesCache example_caches) \<and>
   projects (companiesCache example_caches ! 0) ! 0 \<in>
     set (projects (companiesCache example_caches ! 0)) \<and>
   fetchProjectUsers
     (project_users_srv example_net (uuid (projects (companiesCache example_caches ! 0) ! 0))) =
     Some example_users \<and>
   (example_users ! 1) ''company_id'' = Some (uuid (companiesCache example_caches ! 0)) \<and>
   (example_users ! 1) ''companyId'' = None \<and>
   members (projects (companiesCache example_caches ! 0) ! 0) =
     sort_by_name code_unit_key (map member_of
       (filter (\<lambda>pu. pu ''companyId'' = Some (uuid (companiesCache example_caches ! 0)) \<and>
                  truthy (pu ''id''))
          (filter (\<lambda>pu. pu ''companyId'' \<noteq> None) example_users))) \<and>
   member_of (example_users ! 1) \<notin> set (members (projects (companiesCache example_caches ! 0) ! 0)) \<and>
   UsersAPI_fetchAll (users_srv example_net) = Some (Inr example_users) \<and>
   member_of (example_users ! 1) \<in> set (users (companiesCache example_caches ! 0))"
proof -
  let ?C = "companiesCache example_caches ! 0"
  let ?P = "projects ?C ! 0"
  have c: "?C \<in> set (companiesCache example_caches)"
    and p: "?P \<in> set (projects ?C)"
    and pid: "uuid ?P = ''p1''"
    and nomem: "members ?P = []"
    by (simp_all add: example_caches_def)
  have len: "length example_users = 2"
    by (simp add: example_users_def)
  have u2: "example_users ! 1 \<in> set example_users" "truthy ((example_users ! 1) ''id'')"
    "(example_users ! 1) ''company_id'' = Some (uuid ?C)"
    "(example_users ! 1) ''companyId'' = None"
    by (simp_all add: example_users_def example_caches_def truthy_def)
  have roster: "fetchProjectUsers (project_users_srv example_net (uuid ?P)) = Some example_users"
    unfolding pid fetchProjectUsers_def fetchProjectUsers_run_def
    by (subst fetchProjectUsers_loop.simps) (simp add: example_net_def first_page_def len)
  have us: "UsersAPI_fetchAll (users_srv example_net) = Some (Inr example_users)"
    unfolding UsersAPI_fetchAll_def UsersAPI_fetchAll_run_def
    by (subst fetchAll_loop.simps)
       (simp add: example_net_def first_page_def whole_payload_def len)
  from companyId_field_asymmetry[OF example_build c] p roster us
  have "members ?P = sort_by_name code_unit_key (map member_of
       (filter (\<lambda>pu. pu ''companyId'' = Some (uuid ?C) \<and> truthy (pu ''id''))
          (filter (\<lambda>pu. pu ''companyId'' \<noteq> None) example_users)))"
    and "\<forall>u \<in> set example_users. truthy (u ''id'') \<and> u ''company_id'' = Some (uuid ?C) \<longrightarrow>
           member_of u \<in> set (users ?C)"
    by auto
  with u2 have "members ?P = sort_by_name code_unit_key (map member_of
       (filter (\<lambda>pu. pu ''companyId'' = Some (uuid ?C) \<and> truthy (pu ''id''))
          (filter (\<lambda>pu. pu ''companyId'' \<noteq> None) example_users)))"
    and "member_of (example_users ! 1) \<in> set (users ?C)"
    by blast+
  with example_build c p roster us u2 nomem show ?thesis by simp
qed

section \<open>The worker\<close>

lemma local_writes_append [simp]:
  "local_writes (es @ es') = local_writes es @ local_writes es'"
  by (induction es rule: local_writes.induct) simp_all

lemma get2LeggedToken_frame:
  assumes "get2LeggedToken out w = (r, w1)"
  shows "local_area w1 = local_area w \<and> cacheBuilding w1 = cacheBuilding w \<and>
         local_writes (effects w1) = local_writes (effects w)"
  using assms
  by (auto simp: get2LeggedToken_def Let_def split: if_splits token_response.splits)

lemma ensureToken_frame:
  assumes "ensureToken out w = (r, w1)"
  shows "local_area w1 = local_area w \<and> cacheBuilding w1 = cacheBuilding w \<and>
         local_writes (effects w1) = local_writes (effects w)"
  using assms get2LeggedToken_frame[of out w r w1]
  by (auto simp: ensureToken_def split: if_splits)

lemma get2LeggedToken_error:
  "get2LeggedToken out w = (Inl e, w1) \<Longrightarrow> e \<noteq> BuildInProgress"
  by (auto simp: get2LeggedToken_def Let_def split: if_splits token_response.splits)

lemma ensureToken_error:
  "ensureToken out w = (Inl e, w1) \<Longrightarrow> e \<noteq> BuildInProgress"
  using get2LeggedToken_error[of out w e w1]
  by (auto simp: ensureToken_def split: if_splits)

lemma fetchAll_loop_error:
  assumes "fetchAll_loop label limit batch_of srv offset acc reqs = Some y"
    and "\<forall>p. batch_of p \<noteq> Inl BuildInProgress"
  shows "snd y \<noteq> Inl BuildInProgress"
proof -
  have "(\<forall>p. batch_of p \<noteq> Inl BuildInProgress) \<longrightarrow> snd y \<noteq> Inl BuildInProgress"
  proof (rule fetchAll_loop.raw_induct[where
        P = "\<lambda>label limit bo srv offset acc reqs y.
               (\<forall>p. bo p \<noteq> Inl BuildInProgress) \<longrightarrow> snd y \<noteq> Inl BuildInProgress",
        OF _ assms(1)])
    fix f :: "string \<Rightarrow> nat \<Rightarrow> ('a payload \<Rightarrow> error + 'a list option) \<Rightarrow> 'a endpoint \<Rightarrow>
              nat \<Rightarrow> 'a list \<Rightarrow> nat list \<Rightarrow> (nat list \<times> (error + 'a list)) option"
    fix label limit bo srv offset acc reqs y
    assume IH: "\<And>label limit bo srv offset acc reqs y.
        f label limit bo srv offset acc reqs = Some y \<Longrightarrow>
        (\<forall>p. bo p \<noteq> Inl BuildInProgress) \<longrightarrow> snd y \<noteq> Inl BuildInProgress"
    assume eq: "(case srv offset of
        Rejected \<Rightarrow> Some (reqs @ [offset], Inl FetchRejected)
      | NotOk status body \<Rightarrow>
          Some (reqs @ [offset],
                Inl (ApiError label status (case body of None \<Rightarrow> [] | Some b \<Rightarrow> b)))
      | OkBadJson \<Rightarrow> Some (reqs @ [offset], Inl JsonRejected)
      | OkJson p \<Rightarrow>
          (case bo p of
             Inl e \<Rightarrow> Some (reqs @ [offset], Inl e)
           | Inr None \<Rightarrow> Some (reqs @ [offset], Inr acc)
           | Inr (Some batch) \<Rightarrow>
               if length batch = 0 then Some (reqs @ [offset], Inr acc)
               else if length batch < limit then Some (reqs @ [offset], Inr (acc @ batch))
               else f label limit bo srv (offset + limit) (acc @ batch)
                      (reqs @ [offset]))) = Some y"
    show "(\<forall>p. bo p \<noteq> Inl BuildInProgress) \<longrightarrow> snd y \<noteq> Inl BuildInProgress"
    proof
      assume nb: "\<forall>p. bo p \<noteq> Inl BuildInProgress"
      show "snd y \<noteq> Inl BuildInProgress"
      proof (cases "srv offset")
        case (OkJson p)
        show ?thesis
        proof (cases "bo p")
          case (Inl e)
          with nb have "e \<noteq> BuildInProgress" by metis
          with eq OkJson Inl show ?thesis by auto
        next
          case (Inr ob)
          show ?thesis
          proof (cases ob)
            case None
            with eq OkJson Inr show ?thesis by auto
          next
            case (Some batch)
            show ?thesis
            proof (cases "length batch = 0 \<or> length batch < limit")
              case True
              with eq OkJson Inr Some show ?thesis by (auto split: if_splits)
            next
              case False
              with eq OkJson Inr Some
              have "f label limit bo srv (offset + limit) (acc @ batch) (reqs @ [offset]) = Some y"
                by simp
              from IH[OF this] nb show ?thesis by blast
            qed
          qed
        qed
      qed (use eq in auto)
    qed
  qed
  with assms(2) show ?thesis by blast
qed

lemma batch_readers_error:
  "whole_payload p \<noteq> Inl BuildInProgress" "results_or_payload p \<noteq> Inl BuildInProgress"
  by (cases p; simp add: whole_payload_def results_or_payload_def split: jfield.splits)+

lemma usersByCompany_of_error:
  "usersByCompany_of us m = Inl e \<Longrightarrow> e = TypeError"
proof (induction us arbitrary: m)
  case Nil
  then show ?case by simp
next
  case (Cons u us)
  then show ?case
    by (auto simp: usersByCompany_of_Cons Let_def simp del: usersByCompany_of.simps
          split: if_splits)
qed

lemma record_project_companies_error:
  "record_project_companies pid cs d = Inl e \<Longrightarrow> e = TypeError"
proof (induction cs arbitrary: d)
  case Nil
  then show ?case by simp
next
  case (Cons c cs)
  then show ?case
    by (auto simp: record_project_companies_Cons simp del: record_project_companies.simps
          split: if_splits)
qed

lemma map_projects_error:
  "map_projects net ps d puc = Some (Inl e) \<Longrightarrow> e = TypeError"
proof (induction ps arbitrary: d puc)
  case Nil
  then show ?case by simp
next
  case (Cons p ps)
  then show ?case
    by (auto split: if_splits option.splits sum.splits dest: record_project_companies_error)
qed

lemma company_entries_of_error:
  "company_entries_of ck ubc pbi d puc cs = Inl e \<Longrightarrow> e = TypeError"
proof (induction cs)
  case Nil
  then show ?case by simp
next
  case (Cons c cs)
  then show ?case
    by (auto simp: company_entry_of_cases split: if_splits sum.splits)
qed

lemma assemble_error:
  "assemble ck cs ubc ps d puc = Inl e \<Longrightarrow> e = TypeError"
  by (auto simp: assemble_def companiesResult_of_def split: sum.splits
        dest: company_entries_of_error)

lemma buildCompaniesCache_error:
  assumes "buildCompaniesCache ck net = Some (Inl e)"
  shows "e \<noteq> BuildInProgress"
proof -
  have a: "CompaniesAPI_fetchAll srv = Some (Inl e) \<Longrightarrow> e \<noteq> BuildInProgress"
    for srv :: "jsobj endpoint"
    using fetchAll_loop_error[of "''companies''" 100 whole_payload srv 0 "[]" "[]"]
    by (auto simp: CompaniesAPI_fetchAll_def CompaniesAPI_fetchAll_run_def batch_readers_error)
  have b: "UsersAPI_fetchAll srv = Some (Inl e) \<Longrightarrow> e \<noteq> BuildInProgress"
    for srv :: "jsobj endpoint"
    using fetchAll_loop_error[of "''users''" 100 whole_payload srv 0 "[]" "[]"]
    by (auto simp: UsersAPI_fetchAll_def UsersAPI_fetchAll_run_def batch_readers_error)
  have c: "ProjectsAPI_fetchAll srv = Some (Inl e) \<Longrightarrow> e \<noteq> BuildInProgress"
    for srv :: "jsobj endpoint"
    using fetchAll_loop_error[of "''projects''" 200 results_or_payload srv 0 "[]" "[]"]
    by (auto simp: ProjectsAPI_fetchAll_def ProjectsAPI_fetchAll_run_def batch_readers_error)
  from assms a b c show ?thesis
    unfolding buildCompaniesCache_def
    by (auto split: option.splits sum.splits
          dest: usersByCompany_of_error map_projects_error assemble_error)
qed

lemma try_failure:
  assumes "triggerCacheBuild_try ck out w = Some (Inl e, w1)"
  shows "local_area w1 = local_area w \<and> local_writes (effects w1) = local_writes (effects w) \<and>
         cacheBuilding w1 = cacheBuilding w \<and> e \<noteq> BuildInProgress"
proof (cases "ensureToken out w")
  case (Pair r w0)
  note fr = ensureToken_frame[OF Pair]
  show ?thesis
  proof (cases r)
    case (Inl e0)
    with assms Pair have "e = e0" "w1 = w0" by (simp_all add: triggerCacheBuild_try_def)
    with fr ensureToken_error[of out w e0 w0] Pair Inl show ?thesis by simp
  next
    case (Inr token)
    show ?thesis
    proof (cases "stored_truthy (session_area w0 ''accAccountId'')")
      case False
      with assms Pair Inr have "e = NoAccountId" "w1 = w0"
        by (simp_all add: triggerCacheBuild_try_def)
      with fr show ?thesis by simp
    next
      case True
      let ?b = "buildCompaniesCache ck (api out token (session_area w0 ''accAccountId''))"
      from assms Pair Inr True obtain r0 where b: "?b = Some r0"
        by (cases ?b) (simp_all add: triggerCacheBuild_try_def)
      show ?thesis
      proof (cases r0)
        case (Inl e0)
        with assms Pair Inr True b have "e = e0" "w1 = w0\<lparr>effects := effects w0 @ [ApiFetches]\<rparr>"
          by (simp_all add: triggerCacheBuild_try_def)
        with fr buildCompaniesCache_error[of ck _ e0] b Inl show ?thesis by simp
      next
        case (Inr cs)
        with assms Pair \<open>r = Inr token\<close> True b
        have "e = StorageRejected" "w1 = w0\<lparr>effects := effects w0 @ [ApiFetches]\<rparr>"
          by (simp_all add: triggerCacheBuild_try_def Let_def split: if_splits)
        with fr show ?thesis by simp
      qed
    qed
  qed
qed

lemma try_success:
  assumes "triggerCacheBuild_try ck out w = Some (Inr r, w1)"
  shows "\<exists>token accountId cs.
           buildCompaniesCache ck (api out token accountId) = Some (Inr cs) \<and>
           r = companiesCache cs \<and>
           local_area w1 = storage_set (local_area w) (cache_items cs (now_write out)) \<and>
           local_writes (effects w1) =
             local_writes (effects w) @ [cache_items cs (now_write out)] \<and>
           cacheBuilding w1 = cacheBuilding w"
proof (cases "ensureToken out w")
  case (Pair r0 w0)
  note fr = ensureToken_frame[OF Pair]
  from assms Pair obtain token where tok: "r0 = Inr token"
    by (cases r0) (simp_all add: triggerCacheBuild_try_def)
  from assms Pair tok have acct: "stored_truthy (session_area w0 ''accAccountId'')"
    by (auto simp: triggerCacheBuild_try_def Let_def split: if_splits)
  let ?b = "buildCompaniesCache ck (api out token (session_area w0 ''accAccountId''))"
  from assms Pair tok acct obtain cs where b: "?b = Some (Inr cs)"
    by (cases ?b) (auto simp: triggerCacheBuild_try_def Let_def split: sum.splits)
  from assms Pair tok acct b have
    "r = companiesCache cs"
    "w1 = w0\<lparr>local_area := storage_set (local_area w0) (cache_items cs (now_write out)),
             effects := effects w0 @ [ApiFetches] @ [LocalSet (cache_items cs (now_write out))]\<rparr>"
    by (auto simp: triggerCacheBuild_try_def Let_def split: if_splits)
  with fr b show ?thesis by auto
qed

lemma settle_SomeD:
  assumes "triggerCacheBuild_settle ck out w = Some (r, w')"
  obtains w1 where "triggerCacheBuild_try ck out w = Some (r, w1)"
    "w' = w1\<lparr>cacheBuilding := False\<rparr>"
  using assms unfolding triggerCacheBuild_settle_def
  by (auto split: option.splits)

lemma cache_items_lookup:
  "storage_set area (cache_items cs now) ''companiesCache'' = Some (StCompanies (companiesCache cs))"
  "storage_set area (cache_items cs now) ''projectsCache'' = Some (StProjects (projectsCache cs))"
  "storage_set area (cache_items cs now) ''companiesCacheTimestamp'' = Some (StNum now)"
  "storage_set area (cache_items cs now) ''projectsCacheTimestamp'' = Some (StNum now)"
  "k \<notin> {''companiesCache'', ''companiesCacheTimestamp'', ''projectsCache'',
          ''projectsCacheTimestamp''} \<Longrightarrow> storage_set area (cache_items cs now) k = area k"
  by (simp_all add: storage_set_def cache_items_def map_add_def)

lemma step_timestamps:
  assumes "worker_step ck w ev = Some (ob, w')" and "timestamps_agree w"
  shows "timestamps_agree w'"
proof (cases ev)
  case Invoke
  with assms show ?thesis
    by (auto simp: worker_step_def triggerCacheBuild_enter_def timestamps_agree_def
          split: if_splits)
next
  case (Complete out)
  with assms obtain r where s: "triggerCacheBuild_settle ck out w = Some (r, w')"
    by (auto simp: worker_step_def split: if_splits option.splits)
  then obtain w1 where t: "triggerCacheBuild_try ck out w = Some (r, w1)"
    and w': "w' = w1\<lparr>cacheBuilding := False\<rparr>" by (rule settle_SomeD)
  show ?thesis
  proof (cases r)
    case (Inl e)
    with try_failure[of ck out w e w1] t assms(2) w' show ?thesis
      by (simp add: timestamps_agree_def)
  next
    case (Inr cc)
    with try_success[of ck out w cc w1] t w' show ?thesis
      by (auto simp: timestamps_agree_def cache_items_lookup)
  qed
qed

lemma run_timestamps:
  assumes "worker_run ck w evs = Some (obs, w')" and "timestamps_agree w"
  shows "timestamps_agree w'"
  using assms
proof (induction evs arbitrary: w obs)
  case Nil
  then show ?case by simp
next
  case (Cons ev evs)
  from Cons.prems(1) obtain ob w1 obs1 where
    s: "worker_step ck w ev = Some (ob, w1)" and r: "worker_run ck w1 evs = Some (obs1, w')"
    by (auto split: option.splits)
  from step_timestamps[OF s Cons.prems(2)] Cons.IH[OF r] show ?case by simp
qed

lemma refused_run:
  assumes "cacheBuilding w"
  shows "worker_run ck w (Invoke # evs) =
     map_option (\<lambda>(obs, w'). (Refused BuildInProgress # obs, w')) (worker_run ck w evs)"
  using assms
  by (auto simp: worker_step_def triggerCacheBuild_enter_def split: option.splits)

section \<open>The example worker, run\<close>

lemma good_settle:
  "triggerCacheBuild_settle code_unit_key good_outside (example_worker\<lparr>cacheBuilding := True\<rparr>) =
     Some (Inr (companiesCache example_caches), built_worker)"
  by (simp add: triggerCacheBuild_settle_def triggerCacheBuild_try_def ensureToken_def
        get2LeggedToken_def good_outside_def example_worker_def built_worker_def
        stored_truthy_def storage_set_def example_build Let_def)

lemma bad_settle:
  "triggerCacheBuild_settle code_unit_key bad_outside (example_worker\<lparr>cacheBuilding := True\<rparr>) =
     Some (Inl (TokenRequestFailed 401 []), failed_worker)"
  by (simp add: triggerCacheBuild_settle_def triggerCacheBuild_try_def ensureToken_def
        get2LeggedToken_def bad_outside_def good_outside_def example_worker_def
        failed_worker_def stored_truthy_def Let_def)

lemma example_run:
  "worker_run code_unit_key example_worker [Invoke, Invoke, Complete good_outside, Invoke] =
     Some ([Admitted, Refused BuildInProgress, Settled (Inr (companiesCache example_caches)),
            Admitted], built_worker\<lparr>cacheBuilding := True\<rparr>)"
proof -
  have 1: "worker_step code_unit_key example_worker Invoke =
      Some (Admitted, example_worker\<lparr>cacheBuilding := True\<rparr>)"
    by (simp add: worker_step_def triggerCacheBuild_enter_def example_worker_def)
  have 2: "worker_step code_unit_key (example_worker\<lparr>cacheBuilding := True\<rparr>) Invoke =
      Some (Refused BuildInProgress, example_worker\<lparr>cacheBuilding := True\<rparr>)"
    by (simp add: worker_step_def triggerCacheBuild_enter_def)
  have 3: "worker_step code_unit_key (example_worker\<lparr>cacheBuilding := True\<rparr>)
      (Complete good_outside) = Some (Settled (Inr (companiesCache example_caches)), built_worker)"
    by (simp add: worker_step_def good_settle)
  have 4: "worker_step code_unit_key built_worker Invoke =
      Some (Admitted, built_worker\<lparr>cacheBuilding := True\<rparr>)"
    by (simp add: worker_step_def triggerCacheBuild_enter_def built_worker_def)
  show ?thesis by (simp add: 1 2 3 4)
qed

section \<open>Single flight (C2)\<close>

text \<open>
  C2.  While an admitted invocation of \<open>triggerCacheBuild\<close> has begun and not yet settled,
  the flag \<open>cacheBuilding\<close> is set, and every new invocation fails at once with the
  distinguishable \<open>BuildInProgress\<close> error ("Cache build already in progress.") and leaves
  the whole worker state as it is: both storage areas and the list of effects, so it
  performs no fetch and no storage write.  The run of every later event, the completion of
  the first invocation among them, yields the same observations and the same final state
  as without the refused call: the first invocation's result is unaffected.  When an
  admitted invocation settles, with a result or with an error (never \<open>BuildInProgress\<close>),
  the flag is reset and the next call is admitted.
\<close>

theorem single_flight:
  fixes ck :: "string \<Rightarrow> 'k::linorder"
  shows
  "(cacheBuilding w \<longrightarrow>
      triggerCacheBuild_enter w = Inl BuildInProgress \<and>
      worker_step ck w Invoke = Some (Refused BuildInProgress, w) \<and>
      (\<forall>evs. worker_run ck w (Invoke # evs) =
         map_option (\<lambda>(obs, w'). (Refused BuildInProgress # obs, w')) (worker_run ck w evs))) \<and>
   (\<not> cacheBuilding w \<longrightarrow>
      worker_step ck w Invoke = Some (Admitted, w\<lparr>cacheBuilding := True\<rparr>)) \<and>
   (\<forall>out r w'. worker_step ck w (Complete out) = Some (Settled r, w') \<longrightarrow>
      \<not> cacheBuilding w' \<and> r \<noteq> Inl BuildInProgress \<and>
      worker_step ck w' Invoke = Some (Admitted, w'\<lparr>cacheBuilding := True\<rparr>))"
proof -
  have a: "triggerCacheBuild_enter w = Inl BuildInProgress \<and>
      worker_step ck w Invoke = Some (Refused BuildInProgress, w) \<and>
      (\<forall>evs. worker_run ck w (Invoke # evs) =
         map_option (\<lambda>(obs, w'). (Refused BuildInProgress # obs, w')) (worker_run ck w evs))"
    if "cacheBuilding w"
    using that refused_run[OF that, of ck]
    by (simp add: worker_step_def triggerCacheBuild_enter_def)
  have b: "worker_step ck w Invoke = Some (Admitted, w\<lparr>cacheBuilding := True\<rparr>)"
    if "\<not> cacheBuilding w"
    using that by (simp add: worker_step_def triggerCacheBuild_enter_def)
  have c: "\<not> cacheBuilding w' \<and> r \<noteq> Inl BuildInProgress \<and>
      worker_step ck w' Invoke = Some (Admitted, w'\<lparr>cacheBuilding := True\<rparr>)"
    if "worker_step ck w (Complete out) = Some (Settled r, w')" for out r w'
  proof -
    from that have s: "triggerCacheBuild_settle ck out w = Some (r, w')"
      by (auto simp: worker_step_def split: if_splits option.splits)
    then obtain w1 where t: "triggerCacheBuild_try ck out w = Some (r, w1)"
      and w': "w' = w1\<lparr>cacheBuilding := False\<rparr>" by (rule settle_SomeD)
    from w' have nb: "\<not> cacheBuilding w'" by simp
    have "r \<noteq> Inl BuildInProgress"
    proof
      assume "r = Inl BuildInProgress"
      with t try_failure[of ck out w BuildInProgress w1] show False by simp
    qed
    with nb show ?thesis
      by (simp add: worker_step_def triggerCacheBuild_enter_def)
  qed
  from a b c show ?thesis by blast
qed

theorem single_flight_witness:
  "\<not> cacheBuilding example_worker \<and>
   worker_step code_unit_key example_worker Invoke =
     Some (Admitted, example_worker\<lparr>cacheBuilding := True\<rparr>) \<and>
   cacheBuilding (example_worker\<lparr>cacheBuilding := True\<rparr>) \<and>
   worker_step code_unit_key (example_worker\<lparr>cacheBuilding := True\<rparr>) Invoke =
     Some (Refused BuildInProgress, example_worker\<lparr>cacheBuilding := True\<rparr>) \<and>
   worker_run code_unit_key (example_worker\<lparr>cacheBuilding := True\<rparr>)
     [Invoke, Complete good_outside] =
     Some ([Refused BuildInProgress, Settled (Inr (companiesCache example_caches))],
           built_worker) \<and>
   worker_run code_unit_key (example_worker\<lparr>cacheBuilding := True\<rparr>) [Complete good_outside] =
     Some ([Settled (Inr (companiesCache example_caches))], built_worker) \<and>
   worker_step code_unit_key (example_worker\<lparr>cacheBuilding := True\<rparr>) (Complete good_outside) =
     Some (Settled (Inr (companiesCache example_caches)), built_worker) \<and>
   \<not> cacheBuilding built_worker \<and>
   worker_step code_unit_key built_worker Invoke =
     Some (Admitted, built_worker\<lparr>cacheBuilding := True\<rparr>)"
proof -
  let ?w = "example_worker\<lparr>cacheBuilding := True\<rparr>"
  have nb: "\<not> cacheBuilding example_worker" by (simp add: example_worker_def)
  have fl: "cacheBuilding ?w" by simp
  have st: "worker_step code_unit_key ?w (Complete good_outside) =
      Some (Settled (Inr (companiesCache example_caches)), built_worker)"
    by (simp add: worker_step_def good_settle)
  then have r1: "worker_run code_unit_key ?w [Complete good_outside] =
      Some ([Settled (Inr (companiesCache example_caches))], built_worker)"
    by simp
  note s0 = single_flight[of example_worker code_unit_key]
  note s1 = single_flight[of ?w code_unit_key]
  from s0 nb have 1: "worker_step code_unit_key example_worker Invoke = Some (Admitted, ?w)"
    by blast
  from s1 fl have 2: "worker_step code_unit_key ?w Invoke = Some (Refused BuildInProgress, ?w)"
    and 3: "worker_run code_unit_key ?w (Invoke # [Complete good_outside]) =
         map_option (\<lambda>(obs, w'). (Refused BuildInProgress # obs, w'))
           (worker_run code_unit_key ?w [Complete good_outside])"
    by blast+
  from 3 r1 have 4: "worker_run code_unit_key ?w [Invoke, Complete good_outside] =
     Some ([Refused BuildInProgress, Settled (Inr (companiesCache example_caches))],
           built_worker)"
    by simp
  from s1 st have 5: "\<not> cacheBuilding built_worker"
    and 6: "worker_step code_unit_key built_worker Invoke =
     Some (Admitted, built_worker\<lparr>cacheBuilding := True\<rparr>)"
    by blast+
  from nb 1 fl 2 4 r1 st 5 6 show ?thesis by (intro conjI)
qed

section \<open>Persistence (C4)\<close>

text \<open>
  C4.  An invocation of \<open>triggerCacheBuild\<close> that settles with an error has written nothing
  to \<open>chrome.storage.local\<close>: the persisted area is as before, and so are the caches and
  timestamps in it; a refused invocation changes nothing at all.  An invocation that
  settles with a result has written exactly once, and that one write holds both caches and
  both timestamps, each timestamp being the one clock reading taken before the write; no
  other key changes.  So from a state where \<open>projectsCacheTimestamp\<close> equals
  \<open>companiesCacheTimestamp\<close> (or both are absent) the two stay equal through every run.
\<close>

theorem persistence_atomicity:
  fixes ck :: "string \<Rightarrow> 'k::linorder"
  shows
  "(\<forall>e w'. triggerCacheBuild_settle ck out w = Some (Inl e, w') \<longrightarrow>
      local_area w' = local_area w \<and> local_writes (effects w') = local_writes (effects w)) \<and>
   (\<forall>r w'. triggerCacheBuild_settle ck out w = Some (Inr r, w') \<longrightarrow>
      (\<exists>token accountId cs.
         buildCompaniesCache ck (api out token accountId) = Some (Inr cs) \<and>
         r = companiesCache cs \<and>
         local_writes (effects w') = local_writes (effects w) @ [cache_items cs (now_write out)] \<and>
         local_area w' = storage_set (local_area w) (cache_items cs (now_write out)) \<and>
         local_area w' ''companiesCache'' = Some (StCompanies (companiesCache cs)) \<and>
         local_area w' ''projectsCache'' = Some (StProjects (projectsCache cs)) \<and>
         local_area w' ''companiesCacheTimestamp'' = Some (StNum (now_write out)) \<and>
         local_area w' ''projectsCacheTimestamp'' = Some (StNum (now_write out)) \<and>
         (\<forall>k. k \<notin> {''companiesCache'', ''companiesCacheTimestamp'', ''projectsCache'',
                     ''projectsCacheTimestamp''} \<longrightarrow> local_area w' k = local_area w k))) \<and>
   (\<forall>e w'. worker_step ck w Invoke = Some (Refused e, w') \<longrightarrow> w' = w) \<and>
   (\<forall>evs obs w'. timestamps_agree w \<and> worker_run ck w evs = Some (obs, w') \<longrightarrow>
      timestamps_agree w')"
proof -
  have a: "local_area w' = local_area w \<and> local_writes (effects w') = local_writes (effects w)"
    if "triggerCacheBuild_settle ck out w = Some (Inl e, w')" for e w'
  proof -
    from that obtain w1 where t: "triggerCacheBuild_try ck out w = Some (Inl e, w1)"
      and w': "w' = w1\<lparr>cacheBuilding := False\<rparr>" by (rule settle_SomeD)
    from try_failure[OF t] w' show ?thesis by simp
  qed
  have b: "\<exists>token accountId cs.
         buildCompaniesCache ck (api out token accountId) = Some (Inr cs) \<and>
         r = companiesCache cs \<and>
         local_writes (effects w') = local_writes (effects w) @ [cache_items cs (now_write out)] \<and>
         local_area w' = storage_set (local_area w) (cache_items cs (now_write out)) \<and>
         local_area w' ''companiesCache'' = Some (StCompanies (companiesCache cs)) \<and>
         local_area w' ''projectsCache'' = Some (StProjects (projectsCache cs)) \<and>
         local_area w' ''companiesCacheTimestamp'' = Some (StNum (now_write out)) \<and>
         local_area w' ''projectsCacheTimestamp'' = Some (StNum (now_write out)) \<and>
         (\<forall>k. k \<notin> {''companiesCache'', ''companiesCacheTimestamp'', ''projectsCache'',
                     ''projectsCacheTimestamp''} \<longrightarrow> local_area w' k = local_area w k)"
    if "triggerCacheBuild_settle ck out w = Some (Inr r, w')" for r w'
  proof -
    from that obtain w1 where t: "triggerCacheBuild_try ck out w = Some (Inr r, w1)"
      and w': "w' = w1\<lparr>cacheBuilding := False\<rparr>" by (rule settle_SomeD)
    from try_success[OF t] obtain token accountId cs where
      s: "buildCompaniesCache ck (api out token accountId) = Some (Inr cs)"
         "r = companiesCache cs"
         "local_area w1 = storage_set (local_area w) (cache_items cs (now_write out))"
         "local_writes (effects w1) = local_writes (effects w) @ [cache_items cs (now_write out)]"
      by blast
    have la: "local_area w' = storage_set (local_area w) (cache_items cs (now_write out))"
      and lw: "local_writes (effects w') =
        local_writes (effects w) @ [cache_items cs (now_write out)]"
      using s w' by simp_all
    have ks: "local_area w' ''companiesCache'' = Some (StCompanies (companiesCache cs))"
      "local_area w' ''projectsCache'' = Some (StProjects (projectsCache cs))"
      "local_area w' ''companiesCacheTimestamp'' = Some (StNum (now_write out))"
      "local_area w' ''projectsCacheTimestamp'' = Some (StNum (now_write out))"
      "\<forall>k. k \<notin> {''companiesCache'', ''companiesCacheTimestamp'', ''projectsCache'',
                     ''projectsCacheTimestamp''} \<longrightarrow> local_area w' k = local_area w k"
      unfolding la using cache_items_lookup[where area = "local_area w" and cs = cs and now = "now_write out"]
      by blast+
    from s(1,2) lw la ks show ?thesis by blast
  qed
  have c: "w' = w" if "worker_step ck w Invoke = Some (Refused e, w')" for e w'
    using that
    by (auto simp: worker_step_def triggerCacheBuild_enter_def split: if_splits)
  have d: "timestamps_agree w'"
    if "timestamps_agree w \<and> worker_run ck w evs = Some (obs, w')" for evs obs w'
    using that run_timestamps[of ck w evs obs w'] by blast
  show ?thesis
  proof (intro conjI allI impI)
    fix e w' assume "triggerCacheBuild_settle ck out w = Some (Inl e, w')"
    from a[OF this] show "local_area w' = local_area w"
      "local_writes (effects w') = local_writes (effects w)" by blast+
  next
    fix r w' assume "triggerCacheBuild_settle ck out w = Some (Inr r, w')"
    from b[OF this] show "\<exists>token accountId cs.
         buildCompaniesCache ck (api out token accountId) = Some (Inr cs) \<and>
         r = companiesCache cs \<and>
         local_writes (effects w') = local_writes (effects w) @ [cache_items cs (now_write out)] \<and>
         local_area w' = storage_set (local_area w) (cache_items cs (now_write out)) \<and>
         local_area w' ''companiesCache'' = Some (StCompanies (companiesCache cs)) \<and>
         local_area w' ''projectsCache'' = Some (StProjects (projectsCache cs)) \<and>
         local_area w' ''companiesCacheTimestamp'' = Some (StNum (now_write out)) \<and>
         local_area w' ''projectsCacheTimestamp'' = Some (StNum (now_write out)) \<and>
         (\<forall>k. k \<notin> {''companiesCache'', ''companiesCacheTimestamp'', ''projectsCache'',
                     ''projectsCacheTimestamp''} \<longrightarrow> local_area w' k = local_area w k)" .
  next
    fix e w' assume "worker_step ck w Invoke = Some (Refused e, w')"
    from c[OF this] show "w' = w" .
  next
    fix evs obs w' assume "timestamps_agree w \<and> worker_run ck w evs = Some (obs, w')"
    from d[OF this] show "timestamps_agree w'" .
  qed
qed


theorem persistence_atomicity_witness:
  "triggerCacheBuild_settle code_unit_key bad_outside (example_worker\<lparr>cacheBuilding := True\<rparr>) =
     Some (Inl (TokenRequestFailed 401 []), failed_worker) \<and>
   local_area failed_worker = local_area (example_worker\<lparr>cacheBuilding := True\<rparr>) \<and>
   local_writes (effects failed_worker) =
     local_writes (effects (example_worker\<lparr>cacheBuilding := True\<rparr>)) \<and>
   triggerCacheBuild_settle code_unit_key good_outside (example_worker\<lparr>cacheBuilding := True\<rparr>) =
     Some (Inr (companiesCache example_caches), built_worker) \<and>
   local_writes (effects built_worker) = [cache_items example_caches 5000] \<and>
   local_area built_worker ''companiesCache'' = Some (StCompanies (companiesCache example_caches)) \<and>
   local_area built_worker ''projectsCache'' = Some (StProjects (projectsCache example_caches)) \<and>
   local_area built_worker ''companiesCacheTimestamp'' = Some (StNum 5000) \<and>
   local_area built_worker ''projectsCacheTimestamp'' = Some (StNum 5000) \<and>
   local_area built_worker ''apsClientId'' = local_area example_worker ''apsClientId'' \<and>
   timestamps_agree example_worker \<and>
   worker_run code_unit_key example_worker [Invoke, Invoke, Complete good_outside, Invoke] =
     Some ([Admitted, Refused BuildInProgress, Settled (Inr (companiesCache example_caches)),
            Admitted], built_worker\<lparr>cacheBuilding := True\<rparr>) \<and>
   timestamps_agree (built_worker\<lparr>cacheBuilding := True\<rparr>)"
proof -
  let ?w = "example_worker\<lparr>cacheBuilding := True\<rparr>"
  note bad = persistence_atomicity[of code_unit_key bad_outside ?w,
      THEN conjunct1, rule_format, OF bad_settle]
  note good = persistence_atomicity[of code_unit_key good_outside ?w,
      THEN conjunct2, THEN conjunct1, rule_format, OF good_settle]
  have ta: "timestamps_agree example_worker"
    by (simp add: timestamps_agree_def example_worker_def)
  note run = persistence_atomicity[of code_unit_key good_outside example_worker,
      THEN conjunct2, THEN conjunct2, THEN conjunct2, rule_format, OF conjI[OF ta example_run]]
  from bad have 1: "local_area failed_worker = local_area ?w"
    and 2: "local_writes (effects failed_worker) = local_writes (effects ?w)"
    by simp_all
  from good obtain token accountId cs where
    b: "buildCompaniesCache code_unit_key (api good_outside token accountId) = Some (Inr cs)"
    and lw: "local_writes (effects built_worker) =
        local_writes (effects ?w) @ [cache_items cs (now_write good_outside)]"
    and ks: "local_area built_worker ''companiesCache'' = Some (StCompanies (companiesCache cs))"
      "local_area built_worker ''projectsCache'' = Some (StProjects (projectsCache cs))"
      "local_area built_worker ''companiesCacheTimestamp'' = Some (StNum (now_write good_outside))"
      "local_area built_worker ''projectsCacheTimestamp'' = Some (StNum (now_write good_outside))"
    and fr: "\<forall>k. k \<notin> {''companiesCache'', ''companiesCacheTimestamp'', ''projectsCache'',
                     ''projectsCacheTimestamp''} \<longrightarrow> local_area built_worker k = local_area ?w k"
    by (elim exE conjE)
  from b example_build have cs: "cs = example_caches"
    by (simp add: good_outside_def)
  have nw: "now_write good_outside = 5000" by (simp add: good_outside_def)
  from lw have 3: "local_writes (effects built_worker) = [cache_items example_caches 5000]"
    by (simp add: cs nw example_worker_def)
  have nk: "''apsClientId'' \<notin> {''companiesCache'', ''companiesCacheTimestamp'', ''projectsCache'',
                     ''projectsCacheTimestamp''}" by simp
  have "local_area built_worker ''apsClientId'' = local_area ?w ''apsClientId''"
    by (rule fr[THEN spec, THEN mp, OF nk])
  then have 4: "local_area built_worker ''apsClientId'' = local_area example_worker ''apsClientId''"
    by simp
  from bad_settle 1 2 good_settle 3 ks[unfolded cs nw] 4 ta example_run run
  show ?thesis by (intro conjI)
qed

end
